theory Spec2Isabelle
  imports Main
begin

section \<open>Strings and character classes\<close>

text \<open>
  A Python \<open>str\<close> is modelled as a HOL \<open>string\<close>, a list of 8-bit characters standing for
  the code points U+0000 to U+00FF.  The character classes below are those of CPython 3 on
  that range: \<open>str.isspace\<close> (used by \<open>str.split()\<close> and \<open>str.strip()\<close>), the regular
  expression classes \<open>\d\<close> and \<open>\w\<close> of a \<open>str\<close> pattern, the literal ranges \<open>[a-z]\<close> and
  \<open>[A-Z]\<close>, and \<open>str.lower\<close>.  Code points above U+00FF are outside the model.
\<close>

definition isspace :: "char \<Rightarrow> bool" where
  "isspace c = (of_char c \<in> {9, 10, 11, 12, 13, 28, 29, 30, 31, 32, 133, 160 :: nat})"

definition isdigit :: "char \<Rightarrow> bool" where
  "isdigit c = (48 \<le> (of_char c :: nat) \<and> (of_char c :: nat) \<le> 57)"

definition is_az :: "char \<Rightarrow> bool" where
  "is_az c = (97 \<le> (of_char c :: nat) \<and> (of_char c :: nat) \<le> 122)"

definition is_AZ :: "char \<Rightarrow> bool" where
  "is_AZ c = (65 \<le> (of_char c :: nat) \<and> (of_char c :: nat) \<le> 90)"

definition isword :: "char \<Rightarrow> bool" where
  "isword c = (let n = (of_char c :: nat) in
     (48 \<le> n \<and> n \<le> 57) \<or> (65 \<le> n \<and> n \<le> 90) \<or> n = 95 \<or> (97 \<le> n \<and> n \<le> 122) \<or>
     n \<in> {170, 178, 179, 181, 185, 186, 188, 189, 190} \<or>
     (192 \<le> n \<and> n \<le> 214) \<or> (216 \<le> n \<and> n \<le> 246) \<or> (248 \<le> n \<and> n \<le> 255))"

definition lower_char :: "char \<Rightarrow> char" where
  "lower_char c = (let n = (of_char c :: nat) in
     if (65 \<le> n \<and> n \<le> 90) \<or> (192 \<le> n \<and> n \<le> 214) \<or> (216 \<le> n \<and> n \<le> 222)
     then char_of (n + 32) else c)"

definition lower :: "string \<Rightarrow> string" where
  "lower s = map lower_char s"

text \<open>\<open>str.strip()\<close>: whitespace is dropped at both ends.\<close>

definition strip :: "string \<Rightarrow> string" where
  "strip s = rev (dropWhile isspace (rev (dropWhile isspace s)))"

text \<open>
  \<open>str.split()\<close> without arguments: skip whitespace, take the maximal run of other characters,
  repeat; no empty word is produced.
\<close>

function split_ws :: "string \<Rightarrow> string list" where
  "split_ws s =
     (case dropWhile isspace s of
        [] \<Rightarrow> []
      | c # cs \<Rightarrow> takeWhile (\<lambda>x. \<not> isspace x) (c # cs)
                 # split_ws (dropWhile (\<lambda>x. \<not> isspace x) (c # cs)))"
  by pat_completeness auto
termination
proof (relation "measure length")
  show "wf (measure length)" by simp
next
  fix s :: string and c cs
  assume a: "dropWhile isspace s = c # cs"
  then have nsp: "\<not> isspace c"
    using hd_dropWhile [of isspace s] by auto
  have "length (dropWhile (\<lambda>x. \<not> isspace x) (c # cs)) \<le> length cs"
    using nsp by (simp add: length_dropWhile_le)
  also have "length cs < length (dropWhile isspace s)" using a by simp
  also have "\<dots> \<le> length s" by (rule length_dropWhile_le)
  finally show "(dropWhile (\<lambda>x. \<not> isspace x) (c # cs), s) \<in> measure length" by simp
qed

declare split_ws.simps [simp del]

text \<open>\<open>sep.join(xs)\<close>.\<close>

fun join :: "string \<Rightarrow> string list \<Rightarrow> string" where
  "join sep [] = []"
| "join sep [x] = x"
| "join sep (x # y # ys) = x @ sep @ join sep (y # ys)"

text \<open>\<open>needle in haystack\<close> for strings.\<close>

fun contains :: "string \<Rightarrow> string \<Rightarrow> bool" where
  "contains needle [] = (needle = [])"
| "contains needle (c # cs) =
     (take (length needle) (c # cs) = needle \<or> contains needle cs)"

section \<open>The normalizer\<close>

text \<open>
  \<open>re.sub(r'\[\d+\]', '', text)\<close>.  \<open>match_marker s\<close> is the match of \<open>\[\d+\]\<close> anchored at the
  start of \<open>s\<close>: it returns what follows the match.  The digits are taken greedily; no
  backtracking can help, because the character that must follow them is not a digit.
  \<open>sub_markers\<close> is the scan of \<open>re.sub\<close>: at the leftmost match the matched text is dropped
  and the scan goes on behind it, elsewhere one character is copied.
\<close>

definition match_marker :: "string \<Rightarrow> string option" where
  "match_marker s =
     (case s of
        [] \<Rightarrow> None
      | c # r \<Rightarrow>
          if c = CHR ''['' \<and> takeWhile isdigit r \<noteq> [] then
            (case dropWhile isdigit r of
               [] \<Rightarrow> None
             | d # rest \<Rightarrow> if d = CHR '']'' then Some rest else None)
          else None)"

function sub_markers :: "string \<Rightarrow> string" where
  "sub_markers [] = []"
| "sub_markers (c # cs) =
     (case match_marker (c # cs) of
        Some rest \<Rightarrow> sub_markers rest
      | None \<Rightarrow> c # sub_markers cs)"
  by pat_completeness auto
termination
proof (relation "measure length")
  show "wf (measure length)" by simp
next
  fix c :: char and cs rest
  assume a: "match_marker (c # cs) = Some rest"
  then obtain d where d: "dropWhile isdigit cs = d # rest"
    by (auto simp: match_marker_def split: if_splits list.splits)
  have "length (dropWhile isdigit cs) \<le> length cs" by (rule length_dropWhile_le)
  with d show "(rest, c # cs) \<in> measure length" by simp
next
  fix c :: char and cs
  show "(cs, c # cs) \<in> measure length" by simp
qed

declare sub_markers.simps(2) [simp del]

text \<open>
  \<^verbatim>\<open>
  def clean_text(text):
      text = re.sub(r'\[\d+\]', '', text)
      return " ".join(text.split())
  \<close>
\<close>

definition clean_text :: "string \<Rightarrow> string" where
  "clean_text text = join '' '' (split_ws (sub_markers text))"

text \<open>
  \<open>re.sub(r'(?<=[a-z])(?=[A-Z])', ' ', text)\<close>.  The pattern matches the empty string at a
  position whose previous character is in \<open>[a-z]\<close> and whose next character is in \<open>[A-Z]\<close>;
  \<open>re.sub\<close> visits the positions from left to right, writes the replacement where the pattern
  matches and copies the character that follows.  \<open>prev\<close> is the character before the
  position, \<open>None\<close> at the start of the text.
\<close>

fun sub_glued :: "char option \<Rightarrow> string \<Rightarrow> string" where
  "sub_glued prev [] = []"
| "sub_glued prev (c # cs) =
     (if (case prev of None \<Rightarrow> False | Some p \<Rightarrow> is_az p) \<and> is_AZ c
      then CHR '' '' # c # sub_glued (Some c) cs
      else c # sub_glued (Some c) cs)"

definition fix_glued_names :: "string \<Rightarrow> string" where
  "fix_glued_names text = sub_glued None text"

section \<open>The document tree\<close>

text \<open>
  The parsed markup, as the \<open>bs4\<close> library hands it to the program.  A \<open>Tag\<close> has an object
  identity (the program keeps references to tags while it changes the tree), a name, its
  attributes and its children (\<open>contents\<close>).  A \<open>NavigableString\<close> is a piece of plain text.  An
  \<open>OtherString\<close> is a string node of another class of the library: \<open>CData\<close>; \<open>Comment\<close>, which
  here also stands for declarations, doctypes and processing instructions; and the classes
  that the parser gives to the text inside the container elements \<open>style\<close>, \<open>script\<close>,
  \<open>template\<close>, \<open>rt\<close> and \<open>rp\<close>.  Every string node is an instance of \<open>str\<close>.  The value of a
  multi-valued attribute such as \<open>class\<close> is the list of its tokens.
\<close>

datatype string_class =
  CData | Comment | Stylesheet | Script | TemplateString | RubyTextString | RubyParenthesisString

datatype attr_value = Single string | Multi "string list"

datatype node =
    NavigableString string
  | OtherString string_class string
  | Tag nat string "(string \<times> attr_value) list" "node list"

fun children :: "node \<Rightarrow> node list" where
  "children (Tag i n a cs) = cs"
| "children (NavigableString s) = []"
| "children (OtherString k s) = []"

text \<open>\<open>tag.descendants\<close>: every node below the tag, in document order.\<close>

fun descendants :: "node \<Rightarrow> node list" where
  "descendants (Tag i n a cs) = concat (map (\<lambda>c. c # descendants c) cs)"
| "descendants (NavigableString s) = []"
| "descendants (OtherString k s) = []"

fun named :: "string list \<Rightarrow> node \<Rightarrow> bool" where
  "named names (Tag i n a cs) = (n \<in> set names)"
| "named names (NavigableString s) = False"
| "named names (OtherString k s) = False"

text \<open>
  \<open>tag.find_all(name)\<close> and \<open>tag.find_all([name, ...])\<close>: the descendant tags with one of the
  names, in document order; \<open>tag.find(...)\<close> is the first of them, or \<open>None\<close>.
\<close>

definition find_all :: "string list \<Rightarrow> node \<Rightarrow> node list" where
  "find_all names t = filter (named names) (descendants t)"

definition find_first :: "string list \<Rightarrow> node \<Rightarrow> node option" where
  "find_first names t = (case find_all names t of [] \<Rightarrow> None | x # _ \<Rightarrow> Some x)"

text \<open>
  \<open>tag.interesting_string_types\<close>: the classes of strings that \<open>get_text\<close> and
  \<open>stripped_strings\<close> of a tag collect.  A container element collects the strings of its own
  class, any other tag collects plain text and \<open>CData\<close>.  The class of a string is \<open>None\<close> for
  a \<open>NavigableString\<close>.
\<close>

definition interesting_string_types :: "string \<Rightarrow> string_class option \<Rightarrow> bool" where
  "interesting_string_types tag_name cls =
     (if tag_name = ''rt'' then cls = Some RubyTextString
      else if tag_name = ''rp'' then cls = Some RubyParenthesisString
      else if tag_name = ''style'' then cls = Some Stylesheet
      else if tag_name = ''script'' then cls = Some Script
      else if tag_name = ''template'' then cls = Some TemplateString
      else cls = None \<or> cls = Some CData)"

fun tag_name :: "node \<Rightarrow> string" where
  "tag_name (Tag i n a cs) = n"
| "tag_name (NavigableString s) = []"
| "tag_name (OtherString k s) = []"

fun string_of :: "string \<Rightarrow> node \<Rightarrow> string list" where
  "string_of tn (NavigableString s) = (if interesting_string_types tn None then [s] else [])"
| "string_of tn (OtherString k s) = (if interesting_string_types tn (Some k) then [s] else [])"
| "string_of tn (Tag i n a cs) = []"

text \<open>
  The strings that \<open>get_text\<close> and \<open>stripped_strings\<close> of a tag visit: its descendant strings
  of an interesting class, in document order; with \<open>strip=True\<close> each is stripped and the
  empty ones are dropped.
\<close>

definition all_strings :: "bool \<Rightarrow> node \<Rightarrow> string list" where
  "all_strings strp t =
     (let ss = concat (map (string_of (tag_name t)) (descendants t))
      in if strp then filter (\<lambda>x. x \<noteq> []) (map strip ss) else ss)"

definition get_text :: "string \<Rightarrow> bool \<Rightarrow> node \<Rightarrow> string" where
  "get_text sep strp t = join sep (all_strings strp t)"

definition stripped_strings :: "node \<Rightarrow> string list" where
  "stripped_strings t = all_strings True t"

section \<open>The field extractors\<close>

text \<open>
  \<^verbatim>\<open>
  def remove_sup_tags(tag):
      for sup in tag.find_all('sup'):
          sup.decompose()
      return tag
  \<close>
  Every \<open>sup\<close> element below the tag is taken out of its parent together with all that it
  contains.  The tag is changed in place and returned; in the model the result is the tag
  after the call.
\<close>

fun remove_sup_tags :: "node \<Rightarrow> node" where
  "remove_sup_tags (Tag i n a cs) =
     Tag i n a (map remove_sup_tags (filter (\<lambda>c. \<not> named [''sup''] c) cs))"
| "remove_sup_tags (NavigableString s) = NavigableString s"
| "remove_sup_tags (OtherString k s) = OtherString k s"

text \<open>
  \<^verbatim>\<open>
  def extract_first_value_from_cell(td):
      td = remove_sup_tags(td)
      for child in td.children:
          if hasattr(child, 'name') and child.name in ['style', 'script']:
              continue
          if isinstance(child, str):
              text = child.strip()
              if text:
                  return clean_text(text)
          else:
              text = child.get_text(" ", strip=True)
              if text:
                  return clean_text(text)
      return clean_text(td.get_text(" ", strip=True))
  \<close>
  Each extractor returns its value together with the cell as the call leaves it.
\<close>

fun first_value_loop :: "node list \<Rightarrow> string option" where
  "first_value_loop [] = None"
| "first_value_loop (Tag i n a cs # rest) =
     (if n \<in> set [''style'', ''script''] then first_value_loop rest
      else (let text = get_text '' '' True (Tag i n a cs)
            in if text \<noteq> [] then Some (clean_text text) else first_value_loop rest))"
| "first_value_loop (NavigableString s # rest) =
     (let text = strip s
      in if text \<noteq> [] then Some (clean_text text) else first_value_loop rest)"
| "first_value_loop (OtherString k s # rest) =
     (let text = strip s
      in if text \<noteq> [] then Some (clean_text text) else first_value_loop rest)"

definition extract_first_value_from_cell :: "node \<Rightarrow> string \<times> node" where
  "extract_first_value_from_cell td0 =
     (let td = remove_sup_tags td0
      in (case first_value_loop (children td) of
            Some v \<Rightarrow> v
          | None \<Rightarrow> clean_text (get_text '' '' True td), td))"

text \<open>
  \<^verbatim>\<open>
  def extract_director(td):
      td = remove_sup_tags(td)
      a_tag = td.find("a")
      if a_tag:
          return fix_glued_names(clean_text(a_tag.get_text(strip=True)))
      value = extract_first_value_from_cell(td)
      return fix_glued_names(value)
  \<close>
  \<open>extract_country\<close> has the same body.
\<close>

definition extract_director :: "node \<Rightarrow> string \<times> node" where
  "extract_director td0 =
     (let td = remove_sup_tags td0
      in (case find_first [''a''] td of
            Some a_tag \<Rightarrow> (fix_glued_names (clean_text (get_text [] True a_tag)), td)
          | None \<Rightarrow>
              (let (val, td') = extract_first_value_from_cell td
               in (fix_glued_names val, td'))))"

definition extract_country :: "node \<Rightarrow> string \<times> node" where
  "extract_country td0 =
     (let td = remove_sup_tags td0
      in (case find_first [''a''] td of
            Some a_tag \<Rightarrow> (fix_glued_names (clean_text (get_text [] True a_tag)), td)
          | None \<Rightarrow>
              (let (val, td') = extract_first_value_from_cell td
               in (fix_glued_names val, td'))))"

text \<open>
  \<open>re.split(pattern, text)\<close> for a pattern that is a class of single characters: the text is
  cut at every character of the class; the result is never empty.
\<close>

fun re_split :: "(char \<Rightarrow> bool) \<Rightarrow> string \<Rightarrow> string list" where
  "re_split delim [] = [[]]"
| "re_split delim (c # cs) =
     (if delim c then [] # re_split delim cs
      else (case re_split delim cs of
              [] \<Rightarrow> [[c]]
            | w # ws \<Rightarrow> (c # w) # ws))"

text \<open>
  \<open>re.search(r'\b(1[89]\d{2}|20\d{2})\b', text)\<close>.  \<open>\b\<close> holds between two positions of which
  exactly one is a \<open>\w\<close> character; beyond either end of the text there is none.
  \<open>match_year prev s\<close> is the match anchored at the start of \<open>s\<close>, where \<open>prev\<close> is the character
  before it; \<open>search_year\<close> tries the positions from left to right.
\<close>

definition is_w :: "char option \<Rightarrow> bool" where
  "is_w x = (case x of None \<Rightarrow> False | Some c \<Rightarrow> isword c)"

definition word_boundary :: "char option \<Rightarrow> char option \<Rightarrow> bool" where
  "word_boundary p n = (is_w p \<noteq> is_w n)"

definition match_year :: "char option \<Rightarrow> string \<Rightarrow> string option" where
  "match_year prev s =
     (case s of
        a # b # c # d # rest \<Rightarrow>
          if word_boundary prev (Some a)
             \<and> ((a = CHR ''1'' \<and> (b = CHR ''8'' \<or> b = CHR ''9'') \<and> isdigit c \<and> isdigit d)
                \<or> (a = CHR ''2'' \<and> b = CHR ''0'' \<and> isdigit c \<and> isdigit d))
             \<and> word_boundary (Some d) (case rest of [] \<Rightarrow> None | x # _ \<Rightarrow> Some x)
          then Some [a, b, c, d] else None
      | _ \<Rightarrow> None)"

fun search_year :: "char option \<Rightarrow> string \<Rightarrow> string option" where
  "search_year prev [] = None"
| "search_year prev (c # cs) =
     (case match_year prev (c # cs) of
        Some m \<Rightarrow> Some m
      | None \<Rightarrow> search_year (Some c) cs)"

text \<open>\<open>int(text)\<close> for a text of decimal digits.\<close>

definition int_of_digits :: "string \<Rightarrow> int" where
  "int_of_digits ds = foldl (\<lambda>n c. 10 * n + (int (of_char c) - 48)) 0 ds"

text \<open>
  \<^verbatim>\<open>
  def extract_release_year(td):
      td = remove_sup_tags(td)
      text = clean_text(td.get_text(" ", strip=True))
      parts = re.split(r'[\n;]', text)
      if parts:
          match = re.search(r'\b(1[89]\d{2}|20\d{2})\b', parts[0])
          if match:
              return int(match.group(0))
      return None
  \<close>
\<close>

definition extract_release_year :: "node \<Rightarrow> int option \<times> node" where
  "extract_release_year td0 =
     (let td = remove_sup_tags td0;
          text = clean_text (get_text '' '' True td);
          parts = re_split (\<lambda>c. c = CHR 0x0A \<or> c = CHR '';'') text
      in (case parts of
            [] \<Rightarrow> None
          | p # _ \<Rightarrow>
              (case search_year None p of
                 Some m \<Rightarrow> Some (int_of_digits m)
               | None \<Rightarrow> None), td))"

text \<open>
  \<open>re.search(r'(\$[\d,\.]+)', text)\<close>: the leftmost dollar sign that is followed by a digit, a
  comma or a period, with all such characters that follow it.  The result is the matched
  text and the text behind the match.
\<close>

definition is_amount_char :: "char \<Rightarrow> bool" where
  "is_amount_char c = (isdigit c \<or> c = CHR '','' \<or> c = CHR ''.'')"

fun search_amount :: "string \<Rightarrow> (string \<times> string) option" where
  "search_amount [] = None"
| "search_amount (c # cs) =
     (if c = CHR ''$'' \<and> takeWhile is_amount_char cs \<noteq> []
      then Some (c # takeWhile is_amount_char cs, dropWhile is_amount_char cs)
      else search_amount cs)"

text \<open>
  \<^verbatim>\<open>
  def extract_box_office(td):
      td = remove_sup_tags(td)
      combined_text = " ".join(list(td.stripped_strings))
      combined_text = combined_text.replace('\xa0', ' ')
      combined_text = clean_text(combined_text)
      amt_match = re.search(r'(\$[\d,\.]+)', combined_text)
      if amt_match:
          amount = amt_match.group(1)
          remaining = combined_text[amt_match.end():].lower()
          unit = ""
          if "billion" in remaining:
              unit = "billion"
          elif "million" in remaining:
              unit = "million"
          return f"{amount} {unit}".strip()
      parts = re.split(r'[\|\n]', combined_text)
      return parts[0].strip() if parts else combined_text
  \<close>
\<close>

definition extract_box_office :: "node \<Rightarrow> string \<times> node" where
  "extract_box_office td0 =
     (let td = remove_sup_tags td0;
          combined_text = join '' '' (stripped_strings td);
          combined_text = map (\<lambda>c. if c = CHR 0xA0 then CHR '' '' else c) combined_text;
          combined_text = clean_text combined_text
      in (case search_amount combined_text of
            Some (amount, rest) \<Rightarrow>
              (let remaining = lower rest;
                   unit = (if contains ''billion'' remaining then ''billion''
                           else if contains ''million'' remaining then ''million''
                           else [])
               in strip (amount @ '' '' @ unit))
          | None \<Rightarrow>
              (case re_split (\<lambda>c. c = CHR ''|'' \<or> c = CHR 0x0A) combined_text of
                 [] \<Rightarrow> combined_text
               | p # _ \<Rightarrow> strip p), td))"

section \<open>The detail page\<close>

text \<open>
  The program holds references to the rows of the information box while the extractors
  change the cells below them.  A reference is the object identity of a tag:
  \<open>lookup i t\<close> is the tag with identity \<open>i\<close> in the tree \<open>t\<close> as it is now, \<open>None\<close> when it is no
  longer there, and \<open>replace i new t\<close> is \<open>t\<close> with that tag replaced.  In a tree built by the
  parser the identities of the tags are pairwise distinct.
\<close>

fun oid :: "node \<Rightarrow> nat" where
  "oid (Tag i n a cs) = i"
| "oid (NavigableString s) = 0"
| "oid (OtherString k s) = 0"

fun lookup :: "nat \<Rightarrow> node \<Rightarrow> node option"
  and lookup_list :: "nat \<Rightarrow> node list \<Rightarrow> node option" where
  "lookup i (Tag j n a cs) = (if i = j then Some (Tag j n a cs) else lookup_list i cs)"
| "lookup i (NavigableString s) = None"
| "lookup i (OtherString k s) = None"
| "lookup_list i [] = None"
| "lookup_list i (c # cs) =
     (case lookup i c of Some t \<Rightarrow> Some t | None \<Rightarrow> lookup_list i cs)"

fun replace :: "nat \<Rightarrow> node \<Rightarrow> node \<Rightarrow> node" where
  "replace i new (Tag j n a cs) =
     (if i = j then new else Tag j n a (map (replace i new) cs))"
| "replace i new (NavigableString s) = NavigableString s"
| "replace i new (OtherString k s) = OtherString k s"

text \<open>
  A search with a filter on the \<open>class\<close> attribute.  The library applies the filter to every
  token of a multi-valued attribute and to the tokens joined with spaces; a tag without the
  attribute is given \<open>None\<close>, which both filters of the program reject.
\<close>

fun class_matches :: "(string \<Rightarrow> bool) \<Rightarrow> node \<Rightarrow> bool" where
  "class_matches f (Tag i n a cs) =
     (case map_of a ''class'' of
        None \<Rightarrow> False
      | Some (Single v) \<Rightarrow> f v
      | Some (Multi vs) \<Rightarrow> (\<exists>v \<in> set vs. f v) \<or> f (join '' '' vs))"
| "class_matches f (NavigableString s) = False"
| "class_matches f (OtherString k s) = False"

definition find_all_class :: "string list \<Rightarrow> (string \<Rightarrow> bool) \<Rightarrow> node \<Rightarrow> node list" where
  "find_all_class names f t =
     filter (\<lambda>x. named names x \<and> class_matches f x) (descendants t)"

record film_info =
  director :: "string option"
  release_year :: "int option"
  country :: "string option"
  box_office :: "string option"

definition no_info :: film_info where
  "no_info = \<lparr>director = None, release_year = None, country = None, box_office = None\<rparr>"

text \<open>
  \<^verbatim>\<open>
      for row in rows:
          header = row.find("th")
          if not header:
              continue
          header_text = header.get_text(strip=True).lower()
          data_cell = row.find("td")
          if not data_cell:
              continue
          if "directed by" in header_text:
              info["director"] = extract_director(data_cell)
          elif "release date" in header_text:
              info["release_year"] = extract_release_year(data_cell)
          elif header_text in ["country", "countries", "country of origin"]:
              info["country"] = extract_country(data_cell)
          elif "box office" in header_text:
              info["box_office"] = extract_box_office(data_cell)
  \<close>
  One pass of the loop body, for the row with identity \<open>rid\<close>; the state is the dictionary
  \<open>info\<close> and the information box as the passes before have left it.  A row that an earlier
  pass has destroyed (it stood inside a removed \<open>sup\<close> element) has no contents, so that its
  \<open>find\<close> returns \<open>None\<close>.
\<close>

definition process_row :: "nat \<Rightarrow> film_info \<times> node \<Rightarrow> film_info \<times> node" where
  "process_row rid st =
     (case st of (info, box) \<Rightarrow>
       (case lookup rid box of
          None \<Rightarrow> (info, box)
        | Some row \<Rightarrow>
           (case find_first [''th''] row of
              None \<Rightarrow> (info, box)
            | Some header \<Rightarrow>
               (let header_text = lower (get_text [] True header)
                in (case find_first [''td''] row of
                      None \<Rightarrow> (info, box)
                    | Some data_cell \<Rightarrow>
                        if contains ''directed by'' header_text then
                          (let (v, td) = extract_director data_cell
                           in (info\<lparr>director := Some v\<rparr>, replace (oid data_cell) td box))
                        else if contains ''release date'' header_text then
                          (let (v, td) = extract_release_year data_cell
                           in (info\<lparr>release_year := v\<rparr>, replace (oid data_cell) td box))
                        else if header_text \<in> set [''country'', ''countries'', ''country of origin''] then
                          (let (v, td) = extract_country data_cell
                           in (info\<lparr>country := Some v\<rparr>, replace (oid data_cell) td box))
                        else if contains ''box office'' header_text then
                          (let (v, td) = extract_box_office data_cell
                           in (info\<lparr>box_office := Some v\<rparr>, replace (oid data_cell) td box))
                        else (info, box))))))"

fun row_loop :: "nat list \<Rightarrow> film_info \<times> node \<Rightarrow> film_info \<times> node" where
  "row_loop [] st = st"
| "row_loop (rid # rids) st = row_loop rids (process_row rid st)"

text \<open>
  \<^verbatim>\<open>
  def get_film_info(film_url):
      headers = {"User-Agent": "Mozilla/5.0"}
      response = requests.get(film_url, headers=headers)
      film_soup = BeautifulSoup(response.content, 'html.parser')
      info = {"director": None, "release_year": None, "country": None, "box_office": None}
      infobox = film_soup.find("table", class_=lambda c: c and "infobox" in c)
      if not infobox:
          return info
      rows = infobox.find_all("tr")
      for row in rows:
          ...
      return info
  \<close>
  \<open>film_info_of_soup\<close> is the function from the parsed page on.  The network and the parser
  are a parameter \<open>fetch\<close>, from the address to the parsed page or to the exception that the
  request raises.
\<close>

datatype exn = AttributeError | TypeError | RequestException

definition infobox_class :: "string \<Rightarrow> bool" where
  "infobox_class c = (c \<noteq> [] \<and> contains ''infobox'' c)"

definition film_info_of_soup :: "node \<Rightarrow> film_info" where
  "film_info_of_soup film_soup =
     (case find_all_class [''table''] infobox_class film_soup of
        [] \<Rightarrow> no_info
      | infobox # _ \<Rightarrow> fst (row_loop (map oid (find_all [''tr''] infobox)) (no_info, infobox)))"

definition get_film_info :: "(string \<Rightarrow> exn + node) \<Rightarrow> string \<Rightarrow> exn + film_info" where
  "get_film_info fetch film_url =
     (case fetch film_url of
        Inl e \<Rightarrow> Inl e
      | Inr film_soup \<Rightarrow> Inr (film_info_of_soup film_soup))"

section \<open>The listing page\<close>

text \<open>
  \<^verbatim>\<open>
          film_data = {}
          title_cell = cells[title_index]
          film_title = None
          film_link = None
          i_tag = title_cell.find("i")
          if i_tag:
              a_tag = i_tag.find("a")
              if a_tag:
                  film_title = clean_text(a_tag.get_text(strip=True))
                  film_link = a_tag.get("href")
              else:
                  film_title = clean_text(i_tag.get_text(strip=True))
          else:
              a_tag = title_cell.find("a")
              if a_tag:
                  film_title = clean_text(a_tag.get_text(strip=True))
                  film_link = a_tag.get("href")
              else:
                  film_title = clean_text(title_cell.get_text(strip=True))
  \<close>
\<close>

record film_data = film_info +
  title :: "string option"

fun attr_get :: "node \<Rightarrow> string \<Rightarrow> attr_value option" where
  "attr_get (Tag i n a cs) key = map_of a key"
| "attr_get (NavigableString s) key = None"
| "attr_get (OtherString k s) key = None"

definition title_and_link :: "node \<Rightarrow> string \<times> attr_value option" where
  "title_and_link title_cell =
     (case find_first [''i''] title_cell of
        Some i_tag \<Rightarrow>
          (case find_first [''a''] i_tag of
             Some a_tag \<Rightarrow> (clean_text (get_text [] True a_tag), attr_get a_tag ''href'')
           | None \<Rightarrow> (clean_text (get_text [] True i_tag), None))
      | None \<Rightarrow>
          (case find_first [''a''] title_cell of
             Some a_tag \<Rightarrow> (clean_text (get_text [] True a_tag), attr_get a_tag ''href'')
           | None \<Rightarrow> (clean_text (get_text [] True title_cell), None)))"

text \<open>
  \<^verbatim>\<open>
          film_data["title"] = film_title
          film_data["director"] = None
          film_data["release_year"] = None
          film_data["country"] = None
          film_data["box_office"] = None
          if film_link:
              full_link = film_link if film_link.startswith("http") else "https://en.wikipedia.org" + film_link
              try:
                  extra_info = get_film_info(full_link)
                  film_data["director"] = extra_info.get("director")
                  film_data["release_year"] = extra_info.get("release_year")
                  film_data["country"] = extra_info.get("country")
                  film_data["box_office"] = extra_info.get("box_office")
                  time.sleep(1)
              except Exception as e:
                  print(f"Error fetching details for {film_title}: {e}")
          films.append(film_data)
  \<close>
  The pause and the printed message are not modelled.  A multi-valued attribute is a list,
  which has no \<open>startswith\<close>.
\<close>

definition film_of_cell :: "(string \<Rightarrow> exn + node) \<Rightarrow> node \<Rightarrow> exn + film_data" where
  "film_of_cell fetch title_cell =
     (case title_and_link title_cell of (film_title, film_link) \<Rightarrow>
        (let film_data = \<lparr>director = None, release_year = None, country = None,
                          box_office = None, title = Some film_title\<rparr>
         in (case film_link of
               None \<Rightarrow> Inr film_data
             | Some (Multi vs) \<Rightarrow> if vs = [] then Inr film_data else Inl AttributeError
             | Some (Single link) \<Rightarrow>
                 if link = [] then Inr film_data
                 else
                   (let full_link = (if take 4 link = ''http'' then link
                                     else ''https://en.wikipedia.org'' @ link)
                    in (case get_film_info fetch full_link of
                          Inr extra_info \<Rightarrow>
                            Inr (film_data\<lparr>director := director extra_info,
                                   release_year := release_year extra_info,
                                   country := country extra_info,
                                   box_office := box_office extra_info\<rparr>)
                        | Inl e \<Rightarrow> Inr film_data)))))"

text \<open>
  \<^verbatim>\<open>
      rows = target_table.find_all("tr")[1:]
      for row in rows:
          cells = row.find_all(["td", "th"])
          if not cells or len(cells) <= title_index:
              continue
          ...
      return films
  \<close>
  \<open>title_index\<close> is \<open>None\<close> when no header cell holds \<open>title\<close>; the comparison of an \<open>int\<close> with
  \<open>None\<close> raises \<open>TypeError\<close>.  It is reached when the row has cells.
\<close>

fun films_loop ::
  "(string \<Rightarrow> exn + node) \<Rightarrow> nat option \<Rightarrow> node list \<Rightarrow> exn + film_data list" where
  "films_loop fetch title_index [] = Inr []"
| "films_loop fetch title_index (row # rows) =
     (let cells = find_all [''td'', ''th''] row
      in if cells = [] then films_loop fetch title_index rows
         else (case title_index of
                 None \<Rightarrow> Inl TypeError
               | Some k \<Rightarrow>
                   if length cells \<le> k then films_loop fetch title_index rows
                   else (case film_of_cell fetch (cells ! k) of
                           Inl e \<Rightarrow> Inl e
                         | Inr film \<Rightarrow>
                             (case films_loop fetch title_index rows of
                                Inl e \<Rightarrow> Inl e
                              | Inr films \<Rightarrow> Inr (film # films)))))"

text \<open>
  \<^verbatim>\<open>
  def extract_films():
      url = "https://en.wikipedia.org/wiki/List_of_highest-grossing_films"
      headers = {"User-Agent": "Mozilla/5.0"}
      response = requests.get(url, headers=headers)
      soup = BeautifulSoup(response.content, 'html.parser')
      films = []
      tables = soup.find_all("table", class_="wikitable")
      target_table = None
      for table in tables:
          caption = table.find("caption")
          if caption and "highest-grossing films" in caption.get_text().lower():
              target_table = table
              break
      if target_table is None and tables:
          target_table = tables[0]
      header_row = target_table.find("tr")
      header_cells = header_row.find_all(["th", "td"])
      headers_list = [cell.get_text(strip=True).lower() for cell in header_cells]
      title_index = None
      for i, header in enumerate(headers_list):
          if "title" in header:
              title_index = i
              break
      ...
  \<close>
  The hyphen of the caption test is U+2011 in the source, a character outside the strings of
  this model; the test is the parameter \<open>mentions_subject\<close>.  \<open>target_table.find\<close> on \<open>None\<close> and
  \<open>header_row.find_all\<close> on \<open>None\<close> raise \<open>AttributeError\<close>.
\<close>

fun first_index :: "('a \<Rightarrow> bool) \<Rightarrow> 'a list \<Rightarrow> nat option" where
  "first_index P [] = None"
| "first_index P (x # xs) =
     (if P x then Some 0 else map_option Suc (first_index P xs))"

definition listing_url :: string where
  "listing_url = ''https://en.wikipedia.org/wiki/List_of_highest-grossing_films''"

definition extract_films ::
  "(string \<Rightarrow> exn + node) \<Rightarrow> (string \<Rightarrow> bool) \<Rightarrow> exn + film_data list" where
  "extract_films fetch mentions_subject =
     (case fetch listing_url of
        Inl e \<Rightarrow> Inl e
      | Inr soup \<Rightarrow>
         (let tables = find_all_class [''table''] (\<lambda>c. c = ''wikitable'') soup;
              target_table =
                List.find (\<lambda>table. case find_first [''caption''] table of
                                      None \<Rightarrow> False
                                    | Some caption \<Rightarrow>
                                        mentions_subject (lower (get_text [] False caption)))
                  tables;
              target_table = (if target_table = None \<and> tables \<noteq> []
                              then Some (hd tables) else target_table)
          in (case target_table of
                None \<Rightarrow> Inl AttributeError
              | Some table \<Rightarrow>
                 (case find_first [''tr''] table of
                    None \<Rightarrow> Inl AttributeError
                  | Some header_row \<Rightarrow>
                     (let header_cells = find_all [''th'', ''td''] header_row;
                          headers_list = map (\<lambda>cell. lower (get_text [] True cell)) header_cells;
                          title_index = first_index (contains ''title'') headers_list;
                          rows = tl (find_all [''tr''] table)
                      in films_loop fetch title_index rows)))))"

section \<open>Specification-level definitions\<close>

text \<open>
  The text obtained by inserting a space at every position where a character of \<open>[a-z]\<close> is
  immediately followed by a character of \<open>[A-Z]\<close>: \<open>glue_piece s i\<close> is what position \<open>i\<close>
  contributes, the character itself and, when it is such a position, the space behind it.
\<close>

definition glue_piece :: "string \<Rightarrow> nat \<Rightarrow> string" where
  "glue_piece s i =
     (if Suc i < length s \<and> is_az (s ! i) \<and> is_AZ (s ! Suc i) then [s ! i, CHR '' ''] else [s ! i])"

definition glue_spec :: "string \<Rightarrow> string" where
  "glue_spec s = concat (map (glue_piece s) [0..<length s])"

text \<open>
  The space that \<open>sub_glued prev s\<close> writes in front of \<open>s\<close>, when the character before is in
  \<open>[a-z]\<close> and \<open>s\<close> starts with a character in \<open>[A-Z]\<close>.
\<close>

definition glue_pre :: "char option \<Rightarrow> string \<Rightarrow> string" where
  "glue_pre prev s =
     (if (case prev of None \<Rightarrow> False | Some p \<Rightarrow> is_az p) \<and> s \<noteq> [] \<and> is_AZ (hd s) then '' '' else [])"

text \<open>A text contains a bracketed integer when \<open>\[\d+\]\<close> matches at some position.\<close>

fun has_marker :: "string \<Rightarrow> bool" where
  "has_marker [] = False"
| "has_marker (c # cs) = (match_marker (c # cs) \<noteq> None \<or> has_marker cs)"

text \<open>A list of words: none is empty and none holds whitespace.\<close>

definition is_word_list :: "string list \<Rightarrow> bool" where
  "is_word_list ws = (\<forall>w \<in> set ws. w \<noteq> [] \<and> (\<forall>c \<in> set w. \<not> isspace c))"

text \<open>
  \<open>marker_at s j e\<close>: the slice \<open>s[j:e]\<close> is a bracketed integer, an opening bracket, one or
  more digits and a closing bracket.  \<open>in_marker s i\<close>: position \<open>i\<close> of \<open>s\<close> lies inside such a
  slice.
\<close>

definition marker_at :: "string \<Rightarrow> nat \<Rightarrow> nat \<Rightarrow> bool" where
  "marker_at s j e =
     (j + 3 \<le> e \<and> e \<le> length s \<and> s ! j = CHR ''['' \<and> s ! (e - 1) = CHR '']'' \<and>
      (\<forall>k \<in> set [Suc j ..< e - 1]. isdigit (s ! k)))"

definition in_marker :: "string \<Rightarrow> nat \<Rightarrow> bool" where
  "in_marker s i =
     (\<exists>j \<in> set [0 ..< Suc i]. \<exists>e \<in> set [Suc i ..< Suc (length s)]. marker_at s j e)"

text \<open>No bracketed integer that starts inside the prefix \<open>p\<close> of \<open>p @ s\<close> reaches beyond it.\<close>

definition closed_prefix :: "string \<Rightarrow> string \<Rightarrow> bool" where
  "closed_prefix p s = (\<forall>j e. j < length p \<and> marker_at (p @ s) j e \<longrightarrow> e \<le> length p)"

text \<open>
  Every run of whitespace becomes a single space: a whitespace character followed by
  another one is dropped, the last one of a run is replaced by a space.
\<close>

fun collapse_ws :: "string \<Rightarrow> string" where
  "collapse_ws [] = []"
| "collapse_ws [c] = (if isspace c then '' '' else [c])"
| "collapse_ws (c # d # cs) =
     (if isspace c then (if isspace d then collapse_ws (d # cs) else CHR '' '' # collapse_ws (d # cs))
      else c # collapse_ws (d # cs))"

definition rstrip :: "string \<Rightarrow> string" where
  "rstrip s = rev (dropWhile isspace (rev s))"

text \<open>
  The normal form of a text, in the words of the specification: the characters inside a
  bracketed integer of the text are deleted, every run of whitespace becomes one space, and
  whitespace is trimmed at both ends.
\<close>

definition normal_form :: "string \<Rightarrow> string" where
  "normal_form s = strip (collapse_ws (nths s {i. \<not> in_marker s i}))"

text \<open>
  Lowercase and uppercase letters (\<open>str.islower\<close>, \<open>str.isupper\<close> of a character), and the text
  with a space inserted wherever a lowercase letter is immediately followed by an uppercase
  letter.
\<close>

definition is_lower_letter :: "char \<Rightarrow> bool" where
  "is_lower_letter c = (let n = (of_char c :: nat) in
     (97 \<le> n \<and> n \<le> 122) \<or> n \<in> {170, 181, 186} \<or> (223 \<le> n \<and> n \<le> 246) \<or> (248 \<le> n \<and> n \<le> 255))"

definition is_upper_letter :: "char \<Rightarrow> bool" where
  "is_upper_letter c = (let n = (of_char c :: nat) in
     (65 \<le> n \<and> n \<le> 90) \<or> (192 \<le> n \<and> n \<le> 214) \<or> (216 \<le> n \<and> n \<le> 222))"

definition letters_piece :: "string \<Rightarrow> nat \<Rightarrow> string" where
  "letters_piece s i =
     (if Suc i < length s \<and> is_lower_letter (s ! i) \<and> is_upper_letter (s ! Suc i)
      then [s ! i, CHR '' ''] else [s ! i])"

definition letters_spec :: "string \<Rightarrow> string" where
  "letters_spec s = concat (map (letters_piece s) [0..<length s])"

text \<open>
  \<open>plain_year_at s i\<close>: at position \<open>i\<close> of \<open>s\<close> stand four digits whose value lies between 1800
  and 2099, whatever stands next to them.  \<open>first_plain_year s\<close> is the value at the first
  such position.
\<close>

definition plain_year_at :: "string \<Rightarrow> nat \<Rightarrow> bool" where
  "plain_year_at s i =
     (i + 4 \<le> length s \<and> list_all isdigit (take 4 (drop i s))
      \<and> 1800 \<le> int_of_digits (take 4 (drop i s)) \<and> int_of_digits (take 4 (drop i s)) \<le> 2099)"

definition first_plain_year :: "string \<Rightarrow> int option" where
  "first_plain_year s =
     (case filter (plain_year_at s) [0..<length s] of
        [] \<Rightarrow> None
      | i # _ \<Rightarrow> Some (int_of_digits (take 4 (drop i s))))"

text \<open>The fragment with every \<open>sup\<close> element below it taken out.\<close>

fun without_sup :: "node \<Rightarrow> node" where
  "without_sup (Tag i n a cs) =
     Tag i n a (concat (map (\<lambda>c. if named [''sup''] c then [] else [without_sup c]) cs))"
| "without_sup (NavigableString s) = NavigableString s"
| "without_sup (OtherString k s) = OtherString k s"

text \<open>
  The text of a direct child of a cell, as the Cell Value Selector reads it: the stripped
  text of a string node, the descendant strings joined with spaces for an element.
\<close>

fun node_text :: "node \<Rightarrow> string" where
  "node_text (NavigableString s) = strip s"
| "node_text (OtherString k s) = strip s"
| "node_text (Tag i n a cs) = get_text '' '' True (Tag i n a cs)"

definition is_style_or_script :: "node \<Rightarrow> bool" where
  "is_style_or_script c = named [''style'', ''script''] c"

definition first_child_with_text :: "node \<Rightarrow> node option" where
  "first_child_with_text td =
     List.find (\<lambda>c. \<not> is_style_or_script c \<and> node_text c \<noteq> []) (children td)"

text \<open>
  The Cell Value Selector when only bare text nodes and elements have text: a string node
  of another class has none.
\<close>

fun bare_text :: "node \<Rightarrow> string" where
  "bare_text (NavigableString s) = strip s"
| "bare_text (OtherString k s) = []"
| "bare_text (Tag i n a cs) = get_text '' '' True (Tag i n a cs)"

definition claimed_first_value :: "node \<Rightarrow> string" where
  "claimed_first_value td =
     (case List.find (\<lambda>c. \<not> is_style_or_script c \<and> bare_text c \<noteq> []) (children td) of
        Some c \<Rightarrow> normal_form (bare_text c)
      | None \<Rightarrow> normal_form (get_text '' '' True td))"


text \<open>
  The first segment of a text that is split on newline or semicolon.  \<open>year_at s i\<close>: at
  position \<open>i\<close> of \<open>s\<close> stand four digits whose value lies between 1800 and 2099, with no \<open>\w\<close>
  character directly before or behind them.  \<open>first_year s\<close> is the value at the first such
  position, if there is one.  \<open>prev_char prev s i\<close> is the character before position \<open>i\<close> of
  \<open>s\<close>, when \<open>prev\<close> is the one before \<open>s\<close>.
\<close>

definition first_segment :: "string \<Rightarrow> string" where
  "first_segment text = takeWhile (\<lambda>c. c \<noteq> CHR 0x0A \<and> c \<noteq> CHR '';'') text"

definition year_at :: "string \<Rightarrow> nat \<Rightarrow> bool" where
  "year_at s i =
     (i + 4 \<le> length s \<and> list_all isdigit (take 4 (drop i s))
      \<and> 1800 \<le> int_of_digits (take 4 (drop i s)) \<and> int_of_digits (take 4 (drop i s)) \<le> 2099
      \<and> (i = 0 \<or> \<not> isword (s ! (i - 1)))
      \<and> (i + 4 = length s \<or> \<not> isword (s ! (i + 4))))"

definition first_year :: "string \<Rightarrow> int option" where
  "first_year s =
     (case filter (year_at s) [0..<length s] of
        [] \<Rightarrow> None
      | i # _ \<Rightarrow> Some (int_of_digits (take 4 (drop i s))))"

definition prev_char :: "char option \<Rightarrow> string \<Rightarrow> nat \<Rightarrow> char option" where
  "prev_char prev s i = (if i = 0 then prev else Some (s ! (i - 1)))"












definition row_in_sup_page :: node where
  "row_in_sup_page =
     Tag 0 ''[document]'' []
       [Tag 1 ''table'' [(''class'', Multi [''infobox''])]
          [Tag 2 ''tr'' []
             [Tag 3 ''th'' [] [NavigableString ''Directed by''],
              Tag 4 ''td'' []
                [Tag 5 ''a'' [] [NavigableString ''Jane''],
                 Tag 6 ''sup'' []
                   [Tag 7 ''table'' []
                      [Tag 8 ''tr'' []
                         [Tag 9 ''th'' [] [NavigableString ''Directed by''],
                          Tag 10 ''td'' [] [NavigableString ''Ghost'']]]]]]]]"

definition untitled_listing :: node where
  "untitled_listing =
     Tag 0 ''[document]'' []
       [Tag 1 ''table'' [(''class'', Multi [''wikitable''])]
          [Tag 2 ''tr'' [] [Tag 3 ''th'' [] [NavigableString ''Rank''],
                           Tag 4 ''th'' [] [NavigableString ''Film'']],
           Tag 5 ''tr'' [] [Tag 6 ''td'' [] [NavigableString ''1''],
                           Tag 7 ''td'' [] [NavigableString ''Test Film'']]]]"

section \<open>Properties of the normalizer\<close>

subsection \<open>Splitting and joining\<close>

lemma isspace_space: "isspace (CHR '' '')" by (simp add: isspace_def)

lemma split_ws_Nil: "split_ws [] = []" by (simp add: split_ws.simps)

lemma split_ws_space: "isspace c \<Longrightarrow> split_ws (c # cs) = split_ws cs"
  by (subst split_ws.simps, subst (2) split_ws.simps) simp

lemma split_ws_word:
  assumes "w \<noteq> []" "\<forall>c \<in> set w. \<not> isspace c" "r = [] \<or> isspace (hd r)"
  shows "split_ws (w @ r) = w # split_ws r"
proof -
  obtain c cs where w: "w = c # cs" using assms(1) by (cases w) auto
  have dw: "dropWhile isspace (w @ r) = w @ r" using assms(2) w by simp
  have tw: "takeWhile (\<lambda>x. \<not> isspace x) (w @ r) = w"
    using assms(2,3) by (cases r) (auto simp: takeWhile_append2)
  have dr: "dropWhile (\<lambda>x. \<not> isspace x) (w @ r) = r"
    using assms(2,3) by (cases r) (auto simp: dropWhile_append2)
  show ?thesis
    using dw tw dr by (subst split_ws.simps) (simp add: w)
qed

lemma split_ws_unfold_Nil: "dropWhile isspace s = [] \<Longrightarrow> split_ws s = []"
  by (subst split_ws.simps) (simp only: list.case)

lemma split_ws_unfold_Cons:
  "dropWhile isspace s = c # cs \<Longrightarrow>
   split_ws s = takeWhile (\<lambda>x. \<not> isspace x) (c # cs) # split_ws (dropWhile (\<lambda>x. \<not> isspace x) (c # cs))"
  by (subst split_ws.simps) (simp only: list.case)

lemma dropWhile_isspace_hd: "dropWhile isspace s = c # cs \<Longrightarrow> \<not> isspace c"
  using hd_dropWhile [of isspace s] by auto

lemma is_word_list_Cons:
  "is_word_list (w # ws) \<longleftrightarrow> w \<noteq> [] \<and> (\<forall>c \<in> set w. \<not> isspace c) \<and> is_word_list ws"
  by (simp add: is_word_list_def)

lemma split_ws_words: "is_word_list (split_ws s)"
proof (induction s rule: split_ws.induct)
  case (1 s)
  show ?case
  proof (cases "dropWhile isspace s")
    case Nil
    then show ?thesis by (simp only: split_ws_unfold_Nil) (simp add: is_word_list_def)
  next
    case (Cons c cs)
    have nsp: "\<not> isspace c" using Cons by (rule dropWhile_isspace_hd)
    have a: "\<forall>x \<in> set (takeWhile (\<lambda>x. \<not> isspace x) (c # cs)). \<not> isspace x"
      using set_takeWhileD by fastforce
    have b: "takeWhile (\<lambda>x. \<not> isspace x) (c # cs) \<noteq> []" using nsp by simp
    have "is_word_list (takeWhile (\<lambda>x. \<not> isspace x) (c # cs)
            # split_ws (dropWhile (\<lambda>x. \<not> isspace x) (c # cs)))"
      unfolding is_word_list_Cons using a b 1[OF Cons] by (intro conjI)
    then show ?thesis unfolding split_ws_unfold_Cons[OF Cons] .
  qed
qed

lemma split_join: "is_word_list ws \<Longrightarrow> split_ws (join '' '' ws) = ws"
proof (induction "'' ''" ws rule: join.induct)
  case 1
  show ?case by (simp add: split_ws_Nil)
next
  case (2 x)
  then have "split_ws (x @ []) = x # split_ws []"
    by (intro split_ws_word) (auto simp: is_word_list_def)
  then show ?case by (simp add: split_ws_Nil)
next
  case (3 x y ys)
  have a: "split_ws (x @ ('' '' @ join '' '' (y # ys))) = x # split_ws ('' '' @ join '' '' (y # ys))"
    using 3(2) by (intro split_ws_word) (auto simp: is_word_list_def isspace_space)
  have "is_word_list (y # ys)" using 3(2) by (simp add: is_word_list_def)
  with 3(1) have "split_ws (join '' '' (y # ys)) = y # ys" by simp
  with a show ?case by (simp add: split_ws_space isspace_space)
qed

lemma length_join_Cons:
  "length (join sep (w # ws)) = length w + (if ws = [] then 0 else length sep + length (join sep ws))"
  by (cases ws) simp_all

lemma length_dropWhile_isspace:
  "length (dropWhile isspace s) + (if s \<noteq> [] \<and> isspace (hd s) then 1 else 0) \<le> length s"
proof (cases s)
  case Nil
  then show ?thesis by simp
next
  case (Cons a as)
  have "length (dropWhile isspace as) \<le> length as" by (rule length_dropWhile_le)
  then show ?thesis using Cons by simp
qed

lemma join_split_length_aux:
  "length (join '' '' (split_ws s)) + (if s \<noteq> [] \<and> isspace (hd s) then 1 else 0) \<le> length s"
proof (induction s rule: split_ws.induct)
  case (1 s)
  show ?case
  proof (cases "dropWhile isspace s")
    case Nil
    then show ?thesis by (cases s) (simp_all add: split_ws_unfold_Nil)
  next
    case (Cons c cs)
    define w where "w = takeWhile (\<lambda>x. \<not> isspace x) (c # cs)"
    define r where "r = dropWhile (\<lambda>x. \<not> isspace x) (c # cs)"
    have wr: "length w + length r = length (c # cs)"
      unfolding w_def r_def by (metis length_append takeWhile_dropWhile_id)
    have ih: "length (join '' '' (split_ws r)) + (if r \<noteq> [] \<and> isspace (hd r) then 1 else 0) \<le> length r"
      using 1[OF Cons] by (simp add: r_def)
    have hd_r: "r \<noteq> [] \<Longrightarrow> isspace (hd r)"
      unfolding r_def using hd_dropWhile[of "\<lambda>x. \<not> isspace x" "c # cs"] by blast
    have r_ne: "split_ws r \<noteq> [] \<Longrightarrow> r \<noteq> []"
      by (auto simp: split_ws_Nil)
    have "length (join '' '' (w # split_ws r)) \<le> length w + length r"
      using ih hd_r r_ne by (auto simp: length_join_Cons)
    then have "length (join '' '' (split_ws s)) \<le> length (dropWhile isspace s)"
      using wr by (simp only: split_ws_unfold_Cons[OF Cons] Cons w_def[symmetric] r_def[symmetric])
    then show ?thesis using length_dropWhile_isspace[of s] by linarith
  qed
qed

lemma join_split_length: "length (join '' '' (split_ws s)) \<le> length s"
  using join_split_length_aux[of s] by (simp split: if_splits)

subsection \<open>Footnote markers\<close>

lemma sub_markers_id: "\<not> has_marker s \<Longrightarrow> sub_markers s = s"
  by (induction s) (auto simp: sub_markers.simps(2))

lemma sub_markers_length_le: "length (sub_markers s) \<le> length s"
proof (induction s rule: sub_markers.induct)
  case 1
  show ?case by simp
next
  case (2 c cs)
  show ?case
  proof (cases "match_marker (c # cs)")
    case None
    with 2 show ?thesis by (simp add: sub_markers.simps(2))
  next
    case (Some rest)
    then obtain d where d: "dropWhile isdigit cs = d # rest"
      by (auto simp: match_marker_def split: if_splits list.splits)
    have "length (dropWhile isdigit cs) \<le> length cs" by (rule length_dropWhile_le)
    with d have "length rest < length (c # cs)" by simp
    with 2(2)[OF Some] Some show ?thesis by (simp add: sub_markers.simps(2))
  qed
qed

lemma sub_markers_length_less: "has_marker s \<Longrightarrow> length (sub_markers s) < length s"
proof (induction s rule: sub_markers.induct)
  case 1
  then show ?case by simp
next
  case (2 c cs)
  show ?case
  proof (cases "match_marker (c # cs)")
    case None
    with 2 show ?thesis by (simp add: sub_markers.simps(2))
  next
    case (Some rest)
    then obtain d where d: "dropWhile isdigit cs = d # rest"
      by (auto simp: match_marker_def split: if_splits list.splits)
    have "length (dropWhile isdigit cs) \<le> length cs" by (rule length_dropWhile_le)
    with d have "length rest < length (c # cs)" by simp
    moreover have "length (sub_markers rest) \<le> length rest" by (rule sub_markers_length_le)
    ultimately show ?thesis using Some by (simp add: sub_markers.simps(2))
  qed
qed

subsection \<open>Repair of glued names\<close>

lemma glue_spec_Cons: "glue_spec (c # cs) = c # glue_pre (Some c) cs @ glue_spec cs"
proof -
  have "[0..<length (c # cs)] = 0 # map Suc [0..<length cs]"
    by (simp add: upt_conv_Cons map_Suc_upt del: upt_Suc)
  moreover have "\<And>i. glue_piece (c # cs) (Suc i) = glue_piece cs i"
    by (simp add: glue_piece_def)
  moreover have "glue_piece (c # cs) 0 = c # glue_pre (Some c) cs"
    by (cases cs) (simp_all add: glue_piece_def glue_pre_def)
  ultimately show ?thesis
    by (simp add: glue_spec_def comp_def del: upt_Suc)
qed

lemma sub_glued_spec: "sub_glued prev s = glue_pre prev s @ glue_spec s"
proof (induction s arbitrary: prev)
  case Nil
  show ?case by (simp add: glue_pre_def glue_spec_def)
next
  case (Cons c cs)
  show ?case
    by (simp add: Cons.IH glue_spec_Cons) (simp add: glue_pre_def)
qed

lemma sub_glued_idem: "sub_glued prev (sub_glued prev s) = sub_glued prev s"
proof (induction s arbitrary: prev)
  case Nil
  show ?case by simp
next
  case (Cons c cs)
  have sp: "\<not> is_AZ (CHR '' '')" by (simp add: is_AZ_def)
  have sp': "\<not> is_az (CHR '' '')" by (simp add: is_az_def)
  show ?case by (simp add: Cons.IH sp sp')
qed

lemma fix_glued_names_JohnSmith: "fix_glued_names ''JohnSmith'' = ''John Smith''"
  by (simp add: fix_glued_names_def is_az_def is_AZ_def)
lemma fix_glued_names_John_Smith: "fix_glued_names ''John Smith'' = ''John Smith''"
  by (simp add: fix_glued_names_def is_az_def is_AZ_def)

text \<open>
  Claim C7, as stated: \<open>fix_glued_names\<close> inserts a space at every position where a lowercase
  letter is immediately followed by an uppercase letter.  It fails for letters outside
  \<open>[a-z]\<close> and \<open>[A-Z]\<close>: \<open>Jos\<close>, U+00E9, \<open>Antonio\<close> is returned as it is, although U+00E9 is a
  lowercase letter and \<open>A\<close> an uppercase one.
\<close>

theorem fix_glued_names_letters_counterexample:
  "is_lower_letter (CHR 0xE9) \<and> is_upper_letter (CHR ''A'')
   \<and> letters_spec (''Jos'' @ [CHR 0xE9] @ ''Antonio'') = ''Jos'' @ [CHR 0xE9] @ '' Antonio''
   \<and> fix_glued_names (''Jos'' @ [CHR 0xE9] @ ''Antonio'') = ''Jos'' @ [CHR 0xE9] @ ''Antonio''
   \<and> fix_glued_names (''Jos'' @ [CHR 0xE9] @ ''Antonio'')
       \<noteq> letters_spec (''Jos'' @ [CHR 0xE9] @ ''Antonio'')"
  by code_simp

text \<open>
  Claim C7, amended.  \<open>fix_glued_names\<close> inserts a space at every position where a character of
  \<open>[a-z]\<close> is immediately followed by a character of \<open>[A-Z]\<close>, and nothing else; it maps
  \<open>JohnSmith\<close> to \<open>John Smith\<close>, leaves \<open>John Smith\<close> as it is, and is idempotent.
\<close>

theorem fix_glued_names_inserts_and_idempotent:
  "fix_glued_names s = glue_spec s
   \<and> fix_glued_names ''JohnSmith'' = ''John Smith''
   \<and> fix_glued_names ''John Smith'' = ''John Smith''
   \<and> fix_glued_names (fix_glued_names s) = fix_glued_names s"
proof -
  have "fix_glued_names s = glue_spec s"
    by (simp add: fix_glued_names_def sub_glued_spec glue_pre_def)
  moreover have "fix_glued_names (fix_glued_names s) = fix_glued_names s"
    by (simp add: fix_glued_names_def sub_glued_idem)
  ultimately show ?thesis
    using fix_glued_names_JohnSmith fix_glued_names_John_Smith by blast
qed

theorem fix_glued_names_inserts_and_idempotent_witness:
  "fix_glued_names ''aBcD'' = ''a Bc D'' \<and> fix_glued_names ''a Bc D'' = ''a Bc D''"
proof -
  have a: "glue_spec ''aBcD'' = ''a Bc D''"
    by code_simp
  have b: "fix_glued_names ''aBcD'' = ''a Bc D''"
    using fix_glued_names_inserts_and_idempotent [of "''aBcD''"] a by simp
  have "fix_glued_names (fix_glued_names ''aBcD'') = fix_glued_names ''aBcD''"
    using fix_glued_names_inserts_and_idempotent [of "''aBcD''"] by blast
  with b show ?thesis by simp
qed

subsection \<open>Idempotence of the normalizer\<close>

lemma clean_text_twice:
  "clean_text (clean_text s) = clean_text s \<longleftrightarrow> \<not> has_marker (clean_text s)"
proof
  assume eq: "clean_text (clean_text s) = clean_text s"
  show "\<not> has_marker (clean_text s)"
  proof
    assume "has_marker (clean_text s)"
    then have "length (sub_markers (clean_text s)) < length (clean_text s)"
      by (rule sub_markers_length_less)
    moreover have "length (clean_text (clean_text s)) \<le> length (sub_markers (clean_text s))"
      by (subst clean_text_def) (rule join_split_length)
    ultimately show False using eq by simp
  qed
next
  assume "\<not> has_marker (clean_text s)"
  then have "sub_markers (clean_text s) = clean_text s" by (rule sub_markers_id)
  then have "clean_text (clean_text s) = join '' '' (split_ws (clean_text s))"
    by (simp add: clean_text_def)
  also have "\<dots> = clean_text s"
    unfolding clean_text_def using split_join[OF split_ws_words] by simp
  finally show "clean_text (clean_text s) = clean_text s" .
qed

subsection \<open>What the removal of footnote markers removes\<close>

lemma marker_at_iff:
  "marker_at s j e \<longleftrightarrow>
     (j + 3 \<le> e \<and> e \<le> length s \<and> s ! j = CHR ''['' \<and> s ! (e - 1) = CHR '']'' \<and>
      (\<forall>k. j < k \<and> k < e - 1 \<longrightarrow> isdigit (s ! k)))"
  by (auto simp: marker_at_def)

lemma in_marker_iff:
  "in_marker s i \<longleftrightarrow> (\<exists>j \<le> i. \<exists>e \<le> length s. i < e \<and> marker_at s j e)"
  unfolding in_marker_def Bex_def set_upt by (simp add: less_Suc_eq_le Suc_le_eq) blast

lemma not_digit_brackets: "\<not> isdigit (CHR '']'')" "\<not> isdigit (CHR ''['')"
  by (simp_all add: isdigit_def)

lemma match_marker_iff:
  "match_marker s = Some rest \<longleftrightarrow>
   (\<exists>ds. ds \<noteq> [] \<and> (\<forall>d \<in> set ds. isdigit d) \<and> s = CHR ''['' # ds @ CHR '']'' # rest)"
proof
  assume a: "match_marker s = Some rest"
  then obtain r where s: "s = CHR ''['' # r" and t: "takeWhile isdigit r \<noteq> []"
    and d: "dropWhile isdigit r = CHR '']'' # rest"
    by (auto simp: match_marker_def split: list.splits if_splits)
  have "r = takeWhile isdigit r @ dropWhile isdigit r" by simp
  with d have "r = takeWhile isdigit r @ CHR '']'' # rest" by simp
  moreover have "\<forall>d \<in> set (takeWhile isdigit r). isdigit d"
    using set_takeWhileD by fastforce
  ultimately show "\<exists>ds. ds \<noteq> [] \<and> (\<forall>d \<in> set ds. isdigit d) \<and> s = CHR ''['' # ds @ CHR '']'' # rest"
    using s t by blast
next
  assume "\<exists>ds. ds \<noteq> [] \<and> (\<forall>d \<in> set ds. isdigit d) \<and> s = CHR ''['' # ds @ CHR '']'' # rest"
  then obtain ds where ne: "ds \<noteq> []" and dg: "\<forall>d \<in> set ds. isdigit d"
    and s: "s = CHR ''['' # ds @ CHR '']'' # rest" by blast
  have t: "takeWhile isdigit (ds @ CHR '']'' # rest) = ds"
    using dg by (simp add: takeWhile_tail not_digit_brackets)
  have d: "dropWhile isdigit (ds @ CHR '']'' # rest) = CHR '']'' # rest"
    using dg by (simp add: dropWhile_append2 not_digit_brackets)
  show "match_marker s = Some rest"
    unfolding match_marker_def s using t d ne by simp
qed

lemma marker_at_0_match:
  assumes "marker_at s 0 e"
  shows "match_marker s = Some (drop e s)"
proof -
  from assms have e3: "3 \<le> e" and el: "e \<le> length s" and s0: "s ! 0 = CHR ''[''"
    and se: "s ! (e - 1) = CHR '']''" and dg: "\<forall>k. 0 < k \<and> k < e - 1 \<longrightarrow> isdigit (s ! k)"
    by (auto simp: marker_at_iff)
  obtain r where s: "s = CHR ''['' # r" using s0 el e3 by (cases s) auto
  define n where "n = e - 2"
  have e: "e = Suc (Suc n)" and n1: "1 \<le> n" using e3 by (simp_all add: n_def)
  have nl: "n < length r" using el e s by simp
  have rn: "r ! n = CHR '']''" using se e s by simp
  have "r = take n r @ drop n r" by simp
  also have "drop n r = r ! n # drop (Suc n) r" using nl by (simp add: Cons_nth_drop_Suc)
  finally have r: "r = take n r @ CHR '']'' # drop (Suc n) r" using rn by simp
  have "\<forall>d \<in> set (take n r). isdigit d"
  proof
    fix d assume "d \<in> set (take n r)"
    then obtain k where k: "k < length (take n r)" and d: "d = take n r ! k"
      by (auto simp: in_set_conv_nth)
    have kn: "k < n" using k by simp
    then have "take n r ! k = s ! (Suc k)" using s by simp
    moreover have "isdigit (s ! (Suc k))" using dg kn e by simp
    ultimately show "isdigit d" using d by simp
  qed
  moreover have "take n r \<noteq> []" using n1 nl by auto
  moreover have "s = CHR ''['' # take n r @ CHR '']'' # drop e s"
    using r s e by simp
  ultimately show ?thesis using match_marker_iff by blast
qed

lemma match_marker_at_0:
  assumes "ds \<noteq> []" "\<forall>d \<in> set ds. isdigit d"
  shows "marker_at (CHR ''['' # ds @ CHR '']'' # rest) 0 (length ds + 2)"
proof -
  have "\<forall>k. 0 < k \<and> k < length ds + 1 \<longrightarrow> isdigit ((CHR ''['' # ds @ CHR '']'' # rest) ! k)"
  proof (intro allI impI)
    fix k assume k: "0 < k \<and> k < length ds + 1"
    then obtain k' where k': "k = Suc k'" "k' < length ds" by (cases k) auto
    then show "isdigit ((CHR ''['' # ds @ CHR '']'' # rest) ! k)"
      using assms(2) by (simp add: nth_append)
  qed
  moreover have "(CHR ''['' # ds @ CHR '']'' # rest) ! (length ds + 2 - 1) = CHR '']''"
    by (simp add: nth_append)
  moreover have "0 + 3 \<le> length ds + 2" using assms(1) by (cases ds) auto
  ultimately show ?thesis by (simp add: marker_at_iff)
qed

lemma marker_at_shift:
  "marker_at (p @ s) (length p + j) (length p + e) \<longleftrightarrow> marker_at s j e"
proof -
  have q: "(\<forall>k. length p + j < k \<and> k < length p + e - 1 \<longrightarrow> isdigit ((p @ s) ! k))
        \<longleftrightarrow> (\<forall>k. j < k \<and> k < e - 1 \<longrightarrow> isdigit (s ! k))" if "j + 3 \<le> e"
  proof
    assume a: "\<forall>k. length p + j < k \<and> k < length p + e - 1 \<longrightarrow> isdigit ((p @ s) ! k)"
    show "\<forall>k. j < k \<and> k < e - 1 \<longrightarrow> isdigit (s ! k)"
    proof (intro allI impI)
      fix k assume "j < k \<and> k < e - 1"
      then have "length p + j < length p + k \<and> length p + k < length p + e - 1" by auto
      with a have "isdigit ((p @ s) ! (length p + k))" by blast
      then show "isdigit (s ! k)" by simp
    qed
  next
    assume a: "\<forall>k. j < k \<and> k < e - 1 \<longrightarrow> isdigit (s ! k)"
    show "\<forall>k. length p + j < k \<and> k < length p + e - 1 \<longrightarrow> isdigit ((p @ s) ! k)"
    proof (intro allI impI)
      fix k assume k: "length p + j < k \<and> k < length p + e - 1"
      then have "j < k - length p \<and> k - length p < e - 1" by auto
      with a have "isdigit (s ! (k - length p))" by blast
      moreover have "\<not> k < length p" using k by auto
      ultimately show "isdigit ((p @ s) ! k)" by (simp add: nth_append)
    qed
  qed
  have e1: "(p @ s) ! (length p + e - 1) = s ! (e - 1)" if "j + 3 \<le> e"
  proof -
    have "length p + e - 1 = length p + (e - 1)" using that by simp
    then show ?thesis by simp
  qed
  show ?thesis
  proof (cases "j + 3 \<le> e")
    case True
    then show ?thesis using q[OF True] e1[OF True] by (simp add: marker_at_iff)
  next
    case False
    then show ?thesis by (simp add: marker_at_iff)
  qed
qed

lemma in_marker_shift:
  assumes "closed_prefix p s"
  shows "in_marker (p @ s) (length p + i) \<longleftrightarrow> in_marker s i"
proof
  assume "in_marker (p @ s) (length p + i)"
  then obtain j e where j: "j \<le> length p + i" and e: "e \<le> length (p @ s)" "length p + i < e"
    and m: "marker_at (p @ s) j e" by (auto simp: in_marker_iff)
  have "\<not> j < length p"
  proof
    assume "j < length p"
    with assms m have "e \<le> length p" by (auto simp: closed_prefix_def)
    with e show False by simp
  qed
  then have jj: "j = length p + (j - length p)" by simp
  have ee: "e = length p + (e - length p)" using e by simp
  have "marker_at s (j - length p) (e - length p)"
    using m marker_at_shift[of p s "j - length p" "e - length p"] jj ee by simp
  moreover have "j - length p \<le> i" using j by simp
  moreover have "e - length p \<le> length s" using e by simp
  moreover have "i < e - length p" using e by simp
  ultimately show "in_marker s i" unfolding in_marker_iff by blast
next
  assume "in_marker s i"
  then obtain j e where j: "j \<le> i" and e: "e \<le> length s" "i < e"
    and m: "marker_at s j e" by (auto simp: in_marker_iff)
  have "marker_at (p @ s) (length p + j) (length p + e)" using m by (simp add: marker_at_shift)
  moreover have "length p + j \<le> length p + i" using j by simp
  moreover have "length p + e \<le> length (p @ s)" using e by simp
  moreover have "length p + i < length p + e" using e by simp
  ultimately show "in_marker (p @ s) (length p + i)" unfolding in_marker_iff by blast
qed

lemma nths_shift:
  assumes "closed_prefix p s"
  shows "nths (p @ s) {i. \<not> in_marker (p @ s) i}
         = nths p {i. \<not> in_marker (p @ s) i} @ nths s {i. \<not> in_marker s i}"
proof -
  have "{j. j + length p \<in> {i. \<not> in_marker (p @ s) i}} = {i. \<not> in_marker s i}"
    using in_marker_shift[OF assms] by (simp add: add.commute)
  then show ?thesis by (simp add: nths_append)
qed

lemma sub_markers_nths: "sub_markers s = nths s {i. \<not> in_marker s i}"
proof (induction s rule: sub_markers.induct)
  case 1
  show ?case by simp
next
  case (2 c cs)
  show ?case
  proof (cases "match_marker (c # cs)")
    case None
    have nm: "\<not> marker_at (c # cs) 0 e" for e
      using marker_at_0_match[of "c # cs" e] None by auto
    have cp: "closed_prefix [c] cs"
      using nm by (auto simp: closed_prefix_def)
    have "\<not> in_marker (c # cs) 0"
      using nm by (auto simp: in_marker_iff)
    then have "nths [c] {i. \<not> in_marker ([c] @ cs) i} = [c]"
      by (simp add: nths_Cons)
    with nths_shift[OF cp] have "nths (c # cs) {i. \<not> in_marker (c # cs) i} = c # nths cs {i. \<not> in_marker cs i}"
      by simp
    with 2(1)[OF None] None show ?thesis by (simp add: sub_markers.simps(2))
  next
    case (Some rest)
    then obtain ds where ne: "ds \<noteq> []" and dg: "\<forall>d \<in> set ds. isdigit d"
      and s: "c # cs = CHR ''['' # ds @ CHR '']'' # rest"
      using match_marker_iff by blast
    define p where "p = CHR ''['' # ds @ [CHR '']'']"
    have ps: "c # cs = p @ rest" using s by (simp add: p_def)
    have lp: "length p = length ds + 2" by (simp add: p_def)
    have m0: "marker_at (p @ rest) 0 (length p)"
      using match_marker_at_0[OF ne dg, of rest] by (simp add: p_def)
    have cp: "closed_prefix p rest"
      unfolding closed_prefix_def
    proof (intro allI impI)
      fix j e assume a: "j < length p \<and> marker_at (p @ rest) j e"
      then have br: "(p @ rest) ! j = CHR ''[''" by (simp add: marker_at_iff)
      have j0: "j = 0"
      proof (rule ccontr)
        assume "j \<noteq> 0"
        then obtain j' where j': "j = Suc j'" by (cases j) auto
        with a lp have "j' < length ds + 1" by simp
        then have "(p @ rest) ! j = (ds @ [CHR '']'']) ! j'"
          using j' by (simp add: p_def nth_append)
        also have "\<dots> \<noteq> CHR ''[''"
        proof (cases "j' < length ds")
          case True
          then have "isdigit (ds ! j')" using dg by simp
          then show ?thesis using True not_digit_brackets by (auto simp: nth_append)
        next
          case False
          with \<open>j' < length ds + 1\<close> have "j' = length ds" by simp
          then show ?thesis by (simp add: nth_append)
        qed
        finally show False using br by simp
      qed
      from a j0 have "match_marker (p @ rest) = Some (drop e (p @ rest))"
        using marker_at_0_match by blast
      with Some ps have "drop e (p @ rest) = rest" by simp
      moreover have "e \<le> length (p @ rest)" using a by (simp add: marker_at_iff)
      ultimately have "length (p @ rest) - e = length rest"
        by (metis length_drop)
      with \<open>e \<le> length (p @ rest)\<close> show "e \<le> length p" by simp
    qed
    have "in_marker (p @ rest) i" if "i < length p" for i
      unfolding in_marker_iff using m0 that
      by (intro exI[of _ 0] conjI exI[of _ "length p"]) auto
    then have "set (nths p {i. \<not> in_marker (p @ rest) i}) = {}"
      by (auto simp: set_nths)
    then have "nths p {i. \<not> in_marker (p @ rest) i} = []"
      by simp
    with nths_shift[OF cp] have "nths (c # cs) {i. \<not> in_marker (c # cs) i} = nths rest {i. \<not> in_marker rest i}"
      using ps by simp
    with 2(2)[OF Some] Some show ?thesis by (simp add: sub_markers.simps(2))
  qed
qed

subsection \<open>What splitting and joining does to whitespace\<close>

lemma strip_rstrip: "strip s = rstrip (dropWhile isspace s)"
  by (simp add: strip_def rstrip_def)

lemma rstrip_Nil_iff: "rstrip s = [] \<longleftrightarrow> (\<forall>c \<in> set s. isspace c)"
  by (simp add: rstrip_def dropWhile_eq_Nil_conv)

lemma rstrip_append:
  "rstrip (a @ b) = (if rstrip b = [] then rstrip a else a @ rstrip b)"
proof (cases "\<forall>c \<in> set b. isspace c")
  case True
  then have "dropWhile isspace (rev b @ rev a) = dropWhile isspace (rev a)"
    by (intro dropWhile_append2) simp
  then show ?thesis using True by (simp add: rstrip_def dropWhile_eq_Nil_conv)
next
  case False
  then obtain x where "x \<in> set (rev b)" "\<not> isspace x" by auto
  then have "dropWhile isspace (rev b @ rev a) = dropWhile isspace (rev b) @ rev a"
    by (rule dropWhile_append1)
  then have "rstrip (a @ b) = a @ rstrip b" by (simp add: rstrip_def)
  moreover have "rstrip b \<noteq> []" using False by (simp add: rstrip_def dropWhile_eq_Nil_conv)
  ultimately show ?thesis by simp
qed

lemma rstrip_word: "\<forall>c \<in> set w. \<not> isspace c \<Longrightarrow> rstrip w = w"
proof -
  assume a: "\<forall>c \<in> set w. \<not> isspace c"
  have "dropWhile isspace (rev w) = rev w"
    using a by (cases "rev w") (auto simp: dropWhile_eq_self_iff)
  then show ?thesis by (simp add: rstrip_def)
qed

lemma collapse_ws_nonspace: "\<not> isspace c \<Longrightarrow> collapse_ws (c # cs) = c # collapse_ws cs"
  by (cases cs) simp_all

lemma collapse_ws_word: "\<forall>c \<in> set w. \<not> isspace c \<Longrightarrow> collapse_ws (w @ r) = w @ collapse_ws r"
  by (induction w) (simp_all add: collapse_ws_nonspace)

lemma collapse_ws_spaces:
  "sp \<noteq> [] \<Longrightarrow> \<forall>c \<in> set sp. isspace c \<Longrightarrow> d = [] \<or> \<not> isspace (hd d) \<Longrightarrow>
   collapse_ws (sp @ d) = CHR '' '' # collapse_ws d"
proof (induction sp)
  case Nil
  then show ?case by simp
next
  case (Cons a sp)
  show ?case
  proof (cases sp)
    case Nil
    then show ?thesis using Cons.prems by (cases d) auto
  next
    case (Cons b sp')
    then have "collapse_ws (a # sp @ d) = collapse_ws (sp @ d)"
      using Cons.prems by simp
    moreover have "collapse_ws (sp @ d) = CHR '' '' # collapse_ws d"
      using Cons.IH Cons.prems Cons by simp
    ultimately show ?thesis by simp
  qed
qed

lemma collapse_ws_all_space: "\<forall>c \<in> set s. isspace c \<Longrightarrow> \<forall>c \<in> set (collapse_ws s). isspace c"
proof (induction s rule: collapse_ws.induct)
  case 1
  show ?case by simp
next
  case (2 c)
  have "isspace c" using 2 by simp
  then have "collapse_ws [c] = '' ''" by simp
  then show ?case using isspace_space by simp
next
  case (3 c d cs)
  have c: "isspace c" and d: "isspace d" and r: "\<forall>c \<in> set (d # cs). isspace c"
    using 3(4) by simp_all
  have "\<forall>c \<in> set (collapse_ws (d # cs)). isspace c"
    using 3(1)[OF c d r] .
  moreover have "collapse_ws (c # d # cs) = collapse_ws (d # cs)" using c d by simp
  ultimately show ?case by (simp only:)
qed

lemma split_ws_Nil_iff: "split_ws s = [] \<longleftrightarrow> (\<forall>c \<in> set s. isspace c)"
proof (cases "dropWhile isspace s")
  case Nil
  then show ?thesis by (simp add: split_ws_unfold_Nil dropWhile_eq_Nil_conv)
next
  case (Cons c cs)
  then have "split_ws s \<noteq> []" by (simp add: split_ws_unfold_Cons)
  moreover have "dropWhile isspace s \<noteq> []" using Cons by simp
  then have "\<not> (\<forall>c \<in> set s. isspace c)"
    by (simp add: dropWhile_eq_Nil_conv)
  ultimately show ?thesis by simp
qed

lemma join_Nil_iff: "is_word_list ws \<Longrightarrow> join '' '' ws = [] \<longleftrightarrow> ws = []"
  by (induction "'' ''" ws rule: join.induct) (auto simp: is_word_list_def)

lemma join_Cons: "join sep (w # ws) = (if ws = [] then w else w @ sep @ join sep ws)"
  by (cases ws) simp_all

lemma lead_collapse:
  "dropWhile isspace (collapse_ws s) = collapse_ws (dropWhile isspace s)"
proof -
  define sp where "sp = takeWhile isspace s"
  define d where "d = dropWhile isspace s"
  have s: "s = sp @ d" by (simp add: sp_def d_def)
  have sps: "\<forall>c \<in> set sp. isspace c" unfolding sp_def using set_takeWhileD by fastforce
  have dh: "d = [] \<or> \<not> isspace (hd d)" unfolding d_def using hd_dropWhile[of isspace s] by auto
  have dd: "dropWhile isspace (collapse_ws d) = collapse_ws d"
  proof (cases d)
    case Nil
    then show ?thesis by simp
  next
    case (Cons a as)
    with dh have "\<not> isspace a" by simp
    then show ?thesis using Cons by (simp add: collapse_ws_nonspace)
  qed
  have "dropWhile isspace (collapse_ws (sp @ d)) = collapse_ws d"
  proof (cases "sp = []")
    case True
    then show ?thesis using dd by simp
  next
    case False
    then have "collapse_ws (sp @ d) = CHR '' '' # collapse_ws d"
      using sps dh by (rule collapse_ws_spaces)
    then show ?thesis using dd by (simp add: isspace_space)
  qed
  then show ?thesis unfolding sp_def d_def by simp
qed

lemma join_split_collapse: "join '' '' (split_ws s) = strip (collapse_ws s)"
proof (induction s rule: split_ws.induct)
  case (1 s)
  show ?case
  proof (cases "dropWhile isspace s")
    case Nil
    then have "\<forall>c \<in> set s. isspace c" by (simp add: dropWhile_eq_Nil_conv)
    then have "\<forall>c \<in> set (collapse_ws s). isspace c" by (rule collapse_ws_all_space)
    then have "strip (collapse_ws s) = []"
      by (auto simp: strip_def dropWhile_eq_Nil_conv dest: set_dropWhileD)
    then show ?thesis using Nil by (simp add: split_ws_unfold_Nil)
  next
    case (Cons c cs)
    define w where "w = takeWhile (\<lambda>x. \<not> isspace x) (c # cs)"
    define r where "r = dropWhile (\<lambda>x. \<not> isspace x) (c # cs)"
    have wr: "c # cs = w @ r" by (simp add: w_def r_def)
    have nsp: "\<not> isspace c" using Cons by (rule dropWhile_isspace_hd)
    have ww: "\<forall>x \<in> set w. \<not> isspace x" unfolding w_def using set_takeWhileD by fastforce
    have wne: "w \<noteq> []" using nsp by (simp add: w_def)
    have rh: "r = [] \<or> isspace (hd r)"
      unfolding r_def using hd_dropWhile[of "\<lambda>x. \<not> isspace x" "c # cs"] by blast
    have ih: "join '' '' (split_ws r) = strip (collapse_ws r)"
      using 1[OF Cons] by (simp add: r_def)
    have sp: "split_ws s = w # split_ws r"
      using split_ws_unfold_Cons[OF Cons] by (simp add: w_def r_def)
    have "strip (collapse_ws s) = rstrip (collapse_ws (w @ r))"
      by (simp add: strip_rstrip lead_collapse Cons wr)
    also have "\<dots> = rstrip (w @ collapse_ws r)" using ww by (simp add: collapse_ws_word)
    also have "\<dots> = (if rstrip (collapse_ws r) = [] then w else w @ rstrip (collapse_ws r))"
      using ww by (simp add: rstrip_append rstrip_word)
    finally have lhs: "strip (collapse_ws s) = (if rstrip (collapse_ws r) = [] then w else w @ rstrip (collapse_ws r))" .
    have rr: "rstrip (collapse_ws r) = (if split_ws r = [] then [] else CHR '' '' # join '' '' (split_ws r))"
    proof (cases "split_ws r = []")
      case True
      then have "\<forall>c \<in> set r. isspace c" by (simp add: split_ws_Nil_iff)
      then have "\<forall>c \<in> set (collapse_ws r). isspace c" by (rule collapse_ws_all_space)
      then show ?thesis using True by (simp add: rstrip_Nil_iff)
    next
      case False
      then have rne: "r \<noteq> []" by (auto simp: split_ws_Nil)
      with rh have hs: "isspace (hd r)" by simp
      define sp' where "sp' = takeWhile isspace r"
      define d where "d = dropWhile isspace r"
      have rd: "r = sp' @ d" by (simp add: sp'_def d_def)
      have "sp' \<noteq> []" using rne hs by (cases r) (auto simp: sp'_def)
      moreover have "\<forall>c \<in> set sp'. isspace c" unfolding sp'_def using set_takeWhileD by fastforce
      moreover have "d = [] \<or> \<not> isspace (hd d)" unfolding d_def using hd_dropWhile[of isspace r] by auto
      ultimately have cr: "collapse_ws r = CHR '' '' # collapse_ws d"
        unfolding rd by (rule collapse_ws_spaces)
      have sd: "strip (collapse_ws r) = rstrip (collapse_ws d)"
        by (simp add: strip_rstrip lead_collapse d_def)
      have jn: "join '' '' (split_ws r) \<noteq> []"
        using False join_Nil_iff[OF split_ws_words, of r] by simp
      have "rstrip (collapse_ws r) = rstrip ('' '' @ collapse_ws d)" using cr by simp
      also have "\<dots> = '' '' @ rstrip (collapse_ws d)"
        using jn ih sd by (simp only: rstrip_append) simp
      finally show ?thesis using False ih sd by simp
    qed
    have jj: "join '' '' (split_ws r) = [] \<longleftrightarrow> split_ws r = []"
      using join_Nil_iff[OF split_ws_words] .
    show ?thesis
      unfolding lhs rr sp join_Cons by simp
  qed
qed

subsection \<open>When a second pass changes nothing\<close>

lemma has_marker_iff: "has_marker s \<longleftrightarrow> (\<exists>j e. marker_at s j e)"
proof (induction s)
  case Nil
  show ?case by (simp add: marker_at_iff)
next
  case (Cons c cs)
  have a: "match_marker (c # cs) \<noteq> None \<longleftrightarrow> (\<exists>e. marker_at (c # cs) 0 e)"
  proof
    assume "match_marker (c # cs) \<noteq> None"
    then obtain rest where "match_marker (c # cs) = Some rest" by auto
    then obtain ds where "ds \<noteq> []" "\<forall>d \<in> set ds. isdigit d"
      "c # cs = CHR ''['' # ds @ CHR '']'' # rest"
      using match_marker_iff by blast
    then show "\<exists>e. marker_at (c # cs) 0 e"
      using match_marker_at_0[of ds rest] by auto
  next
    assume "\<exists>e. marker_at (c # cs) 0 e"
    then show "match_marker (c # cs) \<noteq> None"
      using marker_at_0_match[of "c # cs"] by auto
  qed
  have sh: "marker_at (c # cs) (Suc j) (Suc e) \<longleftrightarrow> marker_at cs j e" for j e
    using marker_at_shift[of "[c]" cs j e] by simp
  have b: "(\<exists>j e. marker_at (c # cs) (Suc j) e) \<longleftrightarrow> (\<exists>j e. marker_at cs j e)"
  proof
    assume "\<exists>j e. marker_at (c # cs) (Suc j) e"
    then obtain j e where m: "marker_at (c # cs) (Suc j) e" by blast
    then have "Suc j + 3 \<le> e" by (simp add: marker_at_iff)
    then obtain e' where "e = Suc e'" by (cases e) auto
    with m sh show "\<exists>j e. marker_at cs j e" by blast
  next
    assume "\<exists>j e. marker_at cs j e"
    then show "\<exists>j e. marker_at (c # cs) (Suc j) e" using sh by blast
  qed
  have "(\<exists>j e. marker_at (c # cs) j e)
        \<longleftrightarrow> (\<exists>e. marker_at (c # cs) 0 e) \<or> (\<exists>j e. marker_at (c # cs) (Suc j) e)"
    by (metis not0_implies_Suc)
  then show ?case using a b Cons.IH by simp
qed

text \<open>
  Claim C5, as stated: normalizing a normalized string changes nothing.  It fails: one pass
  of \<open>re.sub\<close> over \<open>[[1]2]\<close> removes \<open>[1]\<close> and leaves \<open>[2]\<close>, which the next pass removes.
\<close>

theorem clean_text_not_idempotent:
  "clean_text (clean_text ''[[1]2]'') \<noteq> clean_text ''[[1]2]''"
  by code_simp

text \<open>
  Claim C5, amended.  A second pass changes \<open>clean_text s\<close> exactly when \<open>clean_text s\<close>
  still contains a bracketed integer: the normalizer is idempotent on every string whose
  normalization contains none.
\<close>

theorem clean_text_idempotent_iff:
  "clean_text (clean_text s) = clean_text s \<longleftrightarrow> \<not> (\<exists>j e. marker_at (clean_text s) j e)"
  using clean_text_twice [of s] has_marker_iff [of "clean_text s"] by simp

theorem clean_text_idempotent_iff_witness:
  "\<not> (\<exists>j e. marker_at (clean_text ''Revenue[2][13]'') j e)
   \<and> clean_text (clean_text ''Revenue[2][13]'') = clean_text ''Revenue[2][13]''"
proof -
  have hm: "\<not> has_marker (clean_text ''Revenue[2][13]'')" by code_simp
  have a: "\<not> (\<exists>j e. marker_at (clean_text ''Revenue[2][13]'') j e)"
    using hm has_marker_iff [of "clean_text ''Revenue[2][13]''"] by blast
  show ?thesis
    using clean_text_idempotent_iff [of "''Revenue[2][13]''"] a by blast
qed

subsection \<open>The normalizer as a whole\<close>

lemma clean_text_normal_form: "clean_text s = normal_form s"
  by (simp add: clean_text_def join_split_collapse sub_markers_nths normal_form_def)

lemma clean_text_Revenue: "clean_text ''Revenue[2][13]'' = ''Revenue''"
  by code_simp

lemma clean_text_A_B_C: "clean_text (''A   B'' @ [CHR 0x0A, CHR 0x09] @ ''C'') = ''A B C''"
  by code_simp

text \<open>
  Claim C6.  \<open>clean_text\<close> deletes from its input exactly the characters that lie inside a
  bracketed integer of the input, then replaces every run of whitespace (the whitespace of
  \<open>str.split\<close>, newlines and tabs included) by one space and trims whitespace at both ends;
  \<open>Revenue[2][13]\<close> becomes \<open>Revenue\<close>, and \<open>A\<close>, three spaces, \<open>B\<close>, newline, tab, \<open>C\<close> becomes
  \<open>A B C\<close>.  (The bracketed integers are those of the input: what remains may form a new
  one, which this pass does not remove.)
\<close>

theorem clean_text_removes_collapses_trims:
  "clean_text s = strip (collapse_ws (nths s {i. \<not> in_marker s i}))
   \<and> clean_text ''Revenue[2][13]'' = ''Revenue''
   \<and> clean_text (''A   B'' @ [CHR 0x0A, CHR 0x09] @ ''C'') = ''A B C''"
proof -
  have "clean_text s = strip (collapse_ws (sub_markers s))"
    by (simp add: clean_text_def join_split_collapse)
  then have "clean_text s = strip (collapse_ws (nths s {i. \<not> in_marker s i}))"
    by (simp only: sub_markers_nths)
  then show ?thesis using clean_text_Revenue clean_text_A_B_C by blast
qed

theorem clean_text_removes_collapses_trims_witness:
  "in_marker ''a [1]b'' 3 \<and> \<not> in_marker ''a [1]b'' 5
   \<and> strip (collapse_ws (nths ''a [1]b'' {i. \<not> in_marker ''a [1]b'' i})) = ''a b''"
proof -
  have a: "in_marker ''a [1]b'' 3 \<and> \<not> in_marker ''a [1]b'' 5" by code_simp
  have b: "clean_text ''a [1]b'' = ''a b''" by code_simp
  have "strip (collapse_ws (nths ''a [1]b'' {i. \<not> in_marker ''a [1]b'' i})) = ''a b''"
    using clean_text_removes_collapses_trims [of "''a [1]b''"] b by (elim conjE) (simp only:)
  with a show ?thesis by blast
qed

section \<open>Properties of the field extractors\<close>

lemma remove_sup_tags_without_sup: "remove_sup_tags t = without_sup t"
proof (induction t)
  case (Tag i n a cs)
  have "map remove_sup_tags (filter (\<lambda>c. \<not> named [''sup''] c) cs)
        = concat (map (\<lambda>c. if named [''sup''] c then [] else [without_sup c]) cs)"
    using Tag.IH by (induction cs) auto
  then show ?case by simp
qed simp_all

subsection \<open>The Cell Value Selector\<close>

lemma first_value_loop_find:
  "first_value_loop cs =
     map_option (\<lambda>c. clean_text (node_text c))
       (List.find (\<lambda>c. \<not> is_style_or_script c \<and> node_text c \<noteq> []) cs)"
  by (induction cs rule: first_value_loop.induct) (simp_all add: is_style_or_script_def Let_def)

text \<open>
  Claim C8, as stated: the value is the normalized text of the first direct child that is
  not a \<open>style\<close> or \<open>script\<close> element and has nonempty text, the trimmed text for a bare text
  node and the descendant text for an element.  It fails when a comment comes first: a
  comment is a string node, and its text is returned.
\<close>

theorem extract_first_value_from_cell_comment_counterexample:
  "claimed_first_value (without_sup
      (Tag 0 ''td'' [] [OtherString Comment '' hidden note '', NavigableString ''Jane'']))
     = ''Jane''
   \<and> fst (extract_first_value_from_cell
      (Tag 0 ''td'' [] [OtherString Comment '' hidden note '', NavigableString ''Jane'']))
     = ''hidden note''"
proof -
  have n: "normal_form ''Jane'' = ''Jane''"
    unfolding clean_text_normal_form[symmetric] by code_simp
  have s: "strip ''Jane'' = ''Jane''" by code_simp
  have "claimed_first_value (without_sup
      (Tag 0 ''td'' [] [OtherString Comment '' hidden note '', NavigableString ''Jane'']))
     = ''Jane''"
    by (simp add: claimed_first_value_def is_style_or_script_def s n)
  moreover have "fst (extract_first_value_from_cell
      (Tag 0 ''td'' [] [OtherString Comment '' hidden note '', NavigableString ''Jane'']))
     = ''hidden note''"
    by code_simp
  ultimately show ?thesis by blast
qed

text \<open>
  Claim C8, amended.  After the \<open>sup\<close> elements are removed, \<open>extract_first_value_from_cell\<close>
  returns the normal form of the text of the first direct child, in document order, that is
  not a \<open>style\<close> or \<open>script\<close> element and whose text is not empty, where the text of a string
  node of any class (plain text, but also a comment) is the string stripped, and the text of
  an element is what its \<open>get_text\<close> with separator space and \<open>strip=True\<close> gives; when there is
  no such child it returns the normal form of that text of the whole cell.
\<close>

theorem extract_first_value_from_cell_first_child:
  "fst (extract_first_value_from_cell td) =
     (case first_child_with_text (without_sup td) of
        Some c \<Rightarrow> normal_form (node_text c)
      | None \<Rightarrow> normal_form (get_text '' '' True (without_sup td)))"
  by (simp add: extract_first_value_from_cell_def first_child_with_text_def
        first_value_loop_find Let_def clean_text_normal_form remove_sup_tags_without_sup
      split: option.splits)

theorem extract_first_value_from_cell_first_child_witness:
  "first_child_with_text (without_sup
      (Tag 0 ''td'' []
         [NavigableString ''  '', Tag 1 ''style'' [] [OtherString Stylesheet ''css''],
          Tag 2 ''sup'' [] [NavigableString ''[1]''],
          Tag 3 ''div'' [] [NavigableString ''Jane'', Tag 4 ''b'' [] [NavigableString '' Doe[2] '']],
          NavigableString ''John'']))
     = Some (Tag 3 ''div'' [] [NavigableString ''Jane'', Tag 4 ''b'' [] [NavigableString '' Doe[2] '']])
   \<and> fst (extract_first_value_from_cell
      (Tag 0 ''td'' []
         [NavigableString ''  '', Tag 1 ''style'' [] [OtherString Stylesheet ''css''],
          Tag 2 ''sup'' [] [NavigableString ''[1]''],
          Tag 3 ''div'' [] [NavigableString ''Jane'', Tag 4 ''b'' [] [NavigableString '' Doe[2] '']],
          NavigableString ''John''])) = ''Jane Doe''"
proof -
  let ?td = "Tag 0 ''td'' []
         [NavigableString ''  '', Tag 1 ''style'' [] [OtherString Stylesheet ''css''],
          Tag 2 ''sup'' [] [NavigableString ''[1]''],
          Tag 3 ''div'' [] [NavigableString ''Jane'', Tag 4 ''b'' [] [NavigableString '' Doe[2] '']],
          NavigableString ''John'']"
  let ?c = "Tag 3 ''div'' [] [NavigableString ''Jane'', Tag 4 ''b'' [] [NavigableString '' Doe[2] '']]"
  have a: "first_child_with_text (without_sup ?td) = Some ?c" by code_simp
  have "clean_text (node_text ?c) = ''Jane Doe''" by code_simp
  then have b: "normal_form (node_text ?c) = ''Jane Doe''"
    by (simp only: clean_text_normal_form)
  have "fst (extract_first_value_from_cell ?td) = normal_form (node_text ?c)"
    using extract_first_value_from_cell_first_child [of ?td] by (simp only: a option.case)
  with a b show ?thesis by simp
qed

text \<open>
  An \<open>rt\<close> element collects the strings of its own class, which the cell around it leaves
  out.
\<close>

lemma extract_first_value_from_cell_rt:
  "fst (extract_first_value_from_cell
      (Tag 0 ''td'' [] [Tag 1 ''rt'' [] [OtherString RubyTextString ''abc''], NavigableString ''x'']))
     = ''abc''
  \<and> get_text '' '' True
      (Tag 0 ''td'' [] [Tag 1 ''rt'' [] [OtherString RubyTextString ''abc''], NavigableString ''x'']) = ''x''"
  by code_simp


subsection \<open>The extractors change the cell they are given\<close>

lemma named_remove_sup [simp]: "named ns (remove_sup_tags t) = named ns t"
  by (cases t) simp_all

lemma find_all_remove_sup: "find_all [''sup''] (remove_sup_tags t) = []"
proof (induction t)
  case (Tag i n a cs)
  have "filter (named [''sup'']) (c # descendants c) = []"
    if "c \<in> set (map remove_sup_tags (filter (\<lambda>c. \<not> named [''sup''] c) cs))" for c
  proof -
    from that obtain c0 where c0: "c0 \<in> set cs" "\<not> named [''sup''] c0" "c = remove_sup_tags c0"
      by auto
    then have "filter (named [''sup'']) (descendants c) = []"
      using Tag.IH by (simp add: find_all_def)
    then show ?thesis using c0 by simp
  qed
  then have "concat (map (\<lambda>c. filter (named [''sup'']) (c # descendants c))
                 (map remove_sup_tags (filter (\<lambda>c. \<not> named [''sup''] c) cs))) = []"
    by (simp only: concat_eq_Nil_conv set_map) blast
  then show ?case
    by (simp only: find_all_def remove_sup_tags.simps descendants.simps filter_concat map_map comp_def)
qed (simp_all add: find_all_def)

lemma remove_sup_changes: "find_all [''sup''] t \<noteq> [] \<Longrightarrow> remove_sup_tags t \<noteq> t"
  using find_all_remove_sup[of t] by auto

lemma remove_sup_unchanged: "find_all [''sup''] t = [] \<Longrightarrow> remove_sup_tags t = t"
proof (induction t)
  case (Tag i n a cs)
  have all: "\<forall>c \<in> set cs. filter (named [''sup'']) (c # descendants c) = []"
    using Tag.prems
    by (simp only: find_all_def descendants.simps filter_concat concat_eq_Nil_conv set_map) auto
  have ns: "\<forall>c \<in> set cs. \<not> named [''sup''] c"
  proof
    fix c assume "c \<in> set cs"
    with all have "filter (named [''sup'']) (c # descendants c) = []" by blast
    then show "\<not> named [''sup''] c" by (auto split: if_splits)
  qed
  have ds: "\<forall>c \<in> set cs. find_all [''sup''] c = []"
  proof
    fix c assume "c \<in> set cs"
    with all have "filter (named [''sup'']) (c # descendants c) = []" by blast
    then show "find_all [''sup''] c = []" by (auto simp: find_all_def split: if_splits)
  qed
  have "filter (\<lambda>c. \<not> named [''sup''] c) cs = cs" using ns by (simp add: filter_id_conv)
  moreover have "map remove_sup_tags cs = cs" using Tag.IH ds by (simp add: map_idI)
  ultimately show ?case by simp
qed simp_all

lemma remove_sup_idem: "remove_sup_tags (remove_sup_tags t) = remove_sup_tags t"
proof (induction t)
  case (Tag i n a cs)
  have "filter (\<lambda>c. \<not> named [''sup''] c) (map remove_sup_tags (filter (\<lambda>c. \<not> named [''sup''] c) cs))
        = map remove_sup_tags (filter (\<lambda>c. \<not> named [''sup''] c) cs)"
    by (simp add: filter_map comp_def)
  then show ?case using Tag.IH by simp
qed simp_all

lemma snd_first_value: "snd (extract_first_value_from_cell td) = remove_sup_tags td"
  by (simp add: extract_first_value_from_cell_def Let_def)

lemma snd_director: "snd (extract_director td) = remove_sup_tags td"
  by (simp add: extract_director_def Let_def snd_first_value[symmetric] remove_sup_idem
      split: option.splits prod.splits)
     (metis snd_first_value remove_sup_idem snd_conv)

lemma snd_country: "snd (extract_country td) = remove_sup_tags td"
  by (simp add: extract_country_def Let_def split: option.splits prod.splits)
     (metis snd_first_value remove_sup_idem snd_conv)

lemma snd_year: "snd (extract_release_year td) = remove_sup_tags td"
  by (simp add: extract_release_year_def Let_def)

lemma snd_box: "snd (extract_box_office td) = remove_sup_tags td"
  by (simp add: extract_box_office_def Let_def)

text \<open>
  Claim C10.  Each of \<open>extract_director\<close>, \<open>extract_country\<close>, \<open>extract_release_year\<close>,
  \<open>extract_box_office\<close> and \<open>extract_first_value_from_cell\<close> leaves the cell it was given with
  every \<open>sup\<close> element removed: no \<open>sup\<close> element remains below it, and the cell is not what
  it was before the call exactly when it had one.
\<close>

theorem extractors_remove_sup_from_their_cell:
  "snd (extract_director td) = remove_sup_tags td
   \<and> snd (extract_country td) = remove_sup_tags td
   \<and> snd (extract_release_year td) = remove_sup_tags td
   \<and> snd (extract_box_office td) = remove_sup_tags td
   \<and> snd (extract_first_value_from_cell td) = remove_sup_tags td
   \<and> find_all [''sup''] (remove_sup_tags td) = []
   \<and> (remove_sup_tags td \<noteq> td \<longleftrightarrow> find_all [''sup''] td \<noteq> [])"
  using snd_director snd_country snd_year snd_box snd_first_value
    find_all_remove_sup remove_sup_changes remove_sup_unchanged by blast

theorem extractors_remove_sup_from_their_cell_witness:
  "find_all [''sup''] (Tag 0 ''td'' [] [NavigableString ''$2 billion'',
       Tag 1 ''sup'' [] [Tag 2 ''a'' [] [NavigableString ''[3]'']]]) \<noteq> []
   \<and> snd (extract_box_office (Tag 0 ''td'' [] [NavigableString ''$2 billion'',
       Tag 1 ''sup'' [] [Tag 2 ''a'' [] [NavigableString ''[3]'']]]))
     = Tag 0 ''td'' [] [NavigableString ''$2 billion'']
   \<and> snd (extract_director (Tag 0 ''td'' [] [NavigableString ''$2 billion'',
       Tag 1 ''sup'' [] [Tag 2 ''a'' [] [NavigableString ''[3]'']]]))
     \<noteq> Tag 0 ''td'' [] [NavigableString ''$2 billion'',
       Tag 1 ''sup'' [] [Tag 2 ''a'' [] [NavigableString ''[3]'']]]"
proof -
  let ?td = "Tag 0 ''td'' [] [NavigableString ''$2 billion'',
       Tag 1 ''sup'' [] [Tag 2 ''a'' [] [NavigableString ''[3]'']]]"
  have a: "find_all [''sup''] ?td \<noteq> []" by code_simp
  have b: "remove_sup_tags ?td = Tag 0 ''td'' [] [NavigableString ''$2 billion'']" by simp
  have "snd (extract_box_office ?td) = remove_sup_tags ?td"
    and "snd (extract_director ?td) = remove_sup_tags ?td"
    and "remove_sup_tags ?td \<noteq> ?td"
    using extractors_remove_sup_from_their_cell [of ?td] a by blast+
  with a b show ?thesis by (simp only:) simp
qed

subsection \<open>The newline delimiter of the release-year extractor\<close>









subsection \<open>The box-office example\<close>

text \<open>
  Claim C1, as stated: a cell whose stripped strings are \<open>$2\<close>, \<open>.264\<close> and \<open>billion\<close> gives
  \<open>$2.264 billion\<close>.  It fails: the strings are joined with spaces, and the amount pattern
  stops at the first space.
\<close>

theorem extract_box_office_split_amount_counterexample:
  "stripped_strings (remove_sup_tags (Tag 0 ''td'' []
       [NavigableString ''$2'', Tag 1 ''span'' [] [NavigableString ''.264''],
        NavigableString '' billion'']))
     = [''$2'', ''.264'', ''billion'']
   \<and> fst (extract_box_office (Tag 0 ''td'' []
       [NavigableString ''$2'', Tag 1 ''span'' [] [NavigableString ''.264''],
        NavigableString '' billion'']))
     \<noteq> ''$2.264 billion''"
  by code_simp

text \<open>
  Claim C1, amended.  For every cell whose stripped strings are \<open>$2\<close>, \<open>.264\<close> and \<open>billion\<close>,
  the extractor joins them with single spaces to \<open>$2 .264 billion\<close>, finds the amount \<open>$2\<close>
  and the unit \<open>billion\<close> in what follows it, and returns \<open>$2 billion\<close>.
\<close>

theorem extract_box_office_split_amount:
  assumes "stripped_strings (remove_sup_tags td) = [''$2'', ''.264'', ''billion'']"
  shows "join '' '' (stripped_strings (remove_sup_tags td)) = ''$2 .264 billion''
    \<and> search_amount (clean_text ''$2 .264 billion'') = Some (''$2'', '' .264 billion'')
    \<and> contains ''billion'' (lower '' .264 billion'')
    \<and> fst (extract_box_office td) = ''$2 billion''"
proof -
  have l1: "join '' '' [''$2'', ''.264'', ''billion''] = ''$2 .264 billion''" by simp
  have l2: "map (\<lambda>c. if c = CHR 0xA0 then CHR '' '' else c) ''$2 .264 billion'' = ''$2 .264 billion''"
    by simp
  have l3: "clean_text ''$2 .264 billion'' = ''$2 .264 billion''" by code_simp
  have l4: "search_amount ''$2 .264 billion'' = Some (''$2'', '' .264 billion'')" by code_simp
  have l5: "lower '' .264 billion'' = '' .264 billion''" by code_simp
  have l6: "contains ''billion'' '' .264 billion''" by code_simp
  have l7: "strip (''$2'' @ '' '' @ ''billion'') = ''$2 billion''" by code_simp
  have "fst (extract_box_office td) = ''$2 billion''"
    unfolding extract_box_office_def Let_def assms l1 l2 l3 l4
    by (simp only: option.case prod.case l5 l6 if_True l7 fst_conv)
  then show ?thesis using assms l1 l3 l4 l5 l6 by simp
qed

theorem extract_box_office_split_amount_witness:
  "stripped_strings (remove_sup_tags (Tag 0 ''td'' []
       [NavigableString ''$2'', Tag 1 ''span'' [] [NavigableString ''.264''],
        Tag 2 ''sup'' [] [NavigableString ''[1]''], NavigableString '' billion'']))
     = [''$2'', ''.264'', ''billion'']
   \<and> fst (extract_box_office (Tag 0 ''td'' []
       [NavigableString ''$2'', Tag 1 ''span'' [] [NavigableString ''.264''],
        Tag 2 ''sup'' [] [NavigableString ''[1]''], NavigableString '' billion'']))
     = ''$2 billion''"
proof -
  let ?td = "Tag 0 ''td'' []
       [NavigableString ''$2'', Tag 1 ''span'' [] [NavigableString ''.264''],
        Tag 2 ''sup'' [] [NavigableString ''[1]''], NavigableString '' billion'']"
  have a: "stripped_strings (remove_sup_tags ?td) = [''$2'', ''.264'', ''billion'']"
    by code_simp
  show ?thesis
    using extract_box_office_split_amount [OF a] a by blast
qed

subsection \<open>The release year\<close>

lemma re_split_hd: "\<exists>ps. re_split d s = takeWhile (\<lambda>c. \<not> d c) s # ps"
  by (induction s) (auto split: list.splits)

lemma char_code_eq: "(of_char a = (of_char b :: nat)) \<longleftrightarrow> a = b"
  by (rule of_char_eq_iff)

lemma digit_chars:
  "a = CHR ''0'' \<longleftrightarrow> of_char a = (48::nat)"
  "a = CHR ''1'' \<longleftrightarrow> of_char a = (49::nat)"
  "a = CHR ''2'' \<longleftrightarrow> of_char a = (50::nat)"
  "a = CHR ''8'' \<longleftrightarrow> of_char a = (56::nat)"
  "a = CHR ''9'' \<longleftrightarrow> of_char a = (57::nat)"
  using char_code_eq[of a "CHR ''0''"] char_code_eq[of a "CHR ''1''"] char_code_eq[of a "CHR ''2''"]
    char_code_eq[of a "CHR ''8''"] char_code_eq[of a "CHR ''9''"] by simp_all

lemma int_of_digits4:
  "int_of_digits [a, b, c, d] =
     1000 * (int (of_char a) - 48) + 100 * (int (of_char b) - 48)
     + 10 * (int (of_char c) - 48) + (int (of_char d) - 48)"
  by (simp add: int_of_digits_def)

lemma year_arith_int:
  fixes x y z w :: int
  assumes "0 \<le> x" "x \<le> 9" "0 \<le> y" "y \<le> 9" "0 \<le> z" "z \<le> 9" "0 \<le> w" "w \<le> 9"
  shows "(1800 \<le> 1000 * x + 100 * y + 10 * z + w \<and> 1000 * x + 100 * y + 10 * z + w \<le> 2099)
     \<longleftrightarrow> ((x = 1 \<and> (y = 8 \<or> y = 9)) \<or> (x = 2 \<and> y = 0))"
proof
  assume a: "1800 \<le> 1000 * x + 100 * y + 10 * z + w \<and> 1000 * x + 100 * y + 10 * z + w \<le> 2099"
  have "x = 1 \<or> x = 2" using a assms by linarith
  then show "(x = 1 \<and> (y = 8 \<or> y = 9)) \<or> (x = 2 \<and> y = 0)"
  proof
    assume x: "x = 1"
    then have "8 \<le> y" using a assms by linarith
    then show ?thesis using x assms by linarith
  next
    assume x: "x = 2"
    then have "y = 0" using a assms by linarith
    then show ?thesis using x by simp
  qed
next
  assume "(x = 1 \<and> (y = 8 \<or> y = 9)) \<or> (x = 2 \<and> y = 0)"
  then show "1800 \<le> 1000 * x + 100 * y + 10 * z + w \<and> 1000 * x + 100 * y + 10 * z + w \<le> 2099"
    using assms by auto
qed

lemma isdigit_bounds: "isdigit a \<longleftrightarrow> 0 \<le> int (of_char a) - 48 \<and> int (of_char a) - 48 \<le> 9"
  by (auto simp: isdigit_def)

lemma digit_values:
  "a = CHR ''0'' \<longleftrightarrow> int (of_char a) - 48 = 0"
  "a = CHR ''1'' \<longleftrightarrow> int (of_char a) - 48 = 1"
  "a = CHR ''2'' \<longleftrightarrow> int (of_char a) - 48 = 2"
  "a = CHR ''8'' \<longleftrightarrow> int (of_char a) - 48 = 8"
  "a = CHR ''9'' \<longleftrightarrow> int (of_char a) - 48 = 9"
  unfolding digit_chars by linarith+

lemma year_pattern:
  "(list_all isdigit [a, b, c, d] \<and> 1800 \<le> int_of_digits [a, b, c, d]
      \<and> int_of_digits [a, b, c, d] \<le> 2099)
   \<longleftrightarrow> ((a = CHR ''1'' \<and> (b = CHR ''8'' \<or> b = CHR ''9'') \<and> isdigit c \<and> isdigit d)
        \<or> (a = CHR ''2'' \<and> b = CHR ''0'' \<and> isdigit c \<and> isdigit d))"
proof (cases "isdigit a \<and> isdigit b \<and> isdigit c \<and> isdigit d")
  case True
  then have bounds:
    "0 \<le> int (of_char a) - 48" "int (of_char a) - 48 \<le> 9"
    "0 \<le> int (of_char b) - 48" "int (of_char b) - 48 \<le> 9"
    "0 \<le> int (of_char c) - 48" "int (of_char c) - 48 \<le> 9"
    "0 \<le> int (of_char d) - 48" "int (of_char d) - 48 \<le> 9"
    by (simp_all add: isdigit_bounds)
  show ?thesis
    using year_arith_int [OF bounds] True
    by (simp only: int_of_digits4 digit_values list.pred_inject simp_thms)
next
  case False
  have "isdigit (CHR ''0'')" "isdigit (CHR ''1'')" "isdigit (CHR ''2'')" "isdigit (CHR ''8'')"
    "isdigit (CHR ''9'')"
    by (simp_all add: isdigit_def)
  then show ?thesis using False by auto
qed

lemma isdigit_isword: "isdigit c \<Longrightarrow> isword c"
  by (simp add: isdigit_def isword_def Let_def)


lemma is_w_digit: "isdigit c \<Longrightarrow> is_w (Some c)"
  by (simp add: is_w_def isdigit_isword)

lemma match_year_short: "length s < 4 \<Longrightarrow> match_year prev s = None"
  by (auto simp: match_year_def split: list.splits)

lemma match_year_4:
  "match_year prev (a # b # c # d # rest) =
     (if list_all isdigit [a, b, c, d] \<and> 1800 \<le> int_of_digits [a, b, c, d]
         \<and> int_of_digits [a, b, c, d] \<le> 2099
         \<and> \<not> is_w prev \<and> \<not> is_w (case rest of [] \<Rightarrow> None | x # _ \<Rightarrow> Some x)
      then Some [a, b, c, d] else None)"
proof (cases "list_all isdigit [a, b, c, d]")
  case True
  then have "is_w (Some a)" "is_w (Some d)" by (simp_all add: is_w_digit)
  then have wb: "word_boundary prev (Some a) = (\<not> is_w prev)"
    "\<And>n. word_boundary (Some d) n = (\<not> is_w n)"
    by (auto simp: word_boundary_def)
  show ?thesis
    unfolding match_year_def list.case wb year_pattern[symmetric] by auto
next
  case False
  then have "\<not> ((a = CHR ''1'' \<and> (b = CHR ''8'' \<or> b = CHR ''9'') \<and> isdigit c \<and> isdigit d)
        \<or> (a = CHR ''2'' \<and> b = CHR ''0'' \<and> isdigit c \<and> isdigit d))"
    using year_pattern[of a b c d] by blast
  then show ?thesis using False unfolding match_year_def list.case by auto
qed

lemma four_or_more:
  "4 \<le> length xs \<Longrightarrow> \<exists>a b c d rest. xs = a # b # c # d # rest"
  by (auto simp: numeral_eq_Suc Suc_le_length_iff)

lemma match_year_year_at:
  "match_year (prev_char None s i) (drop i s) =
     (if year_at s i then Some (take 4 (drop i s)) else None)"
proof (cases "i + 4 \<le> length s")
  case False
  then have "length (drop i s) < 4" by simp
  then show ?thesis using False by (simp add: match_year_short year_at_def)
next
  case True
  then have "4 \<le> length (drop i s)" by simp
  then obtain a b c d rest where d: "drop i s = a # b # c # d # rest"
    using four_or_more by blast
  have t: "take 4 (drop i s) = [a, b, c, d]"
    by (simp add: d numeral_eq_Suc)
  have "drop 4 (drop i s) = rest" by (simp add: d numeral_eq_Suc)
  then have r: "rest = drop (i + 4) s" by (simp add: add.commute)
  have p: "is_w (prev_char None s i) = (i \<noteq> 0 \<and> isword (s ! (i - 1)))"
    by (simp add: prev_char_def is_w_def)
  have n: "is_w (case rest of [] \<Rightarrow> None | x # _ \<Rightarrow> Some x)
           = (i + 4 \<noteq> length s \<and> isword (s ! (i + 4)))"
  proof (cases "i + 4 = length s")
    case True
    then show ?thesis by (simp add: r is_w_def)
  next
    case False
    with \<open>i + 4 \<le> length s\<close> have l: "i + 4 < length s" by simp
    have "drop (i + 4) s = s ! (i + 4) # drop (Suc (i + 4)) s"
      using l by (rule Cons_nth_drop_Suc[symmetric])
    then show ?thesis using False by (simp only: r list.case is_w_def option.case) simp
  qed
  have "match_year (prev_char None s i) (a # b # c # d # rest) =
     (if year_at s i then Some [a, b, c, d] else None)"
    unfolding match_year_4 year_at_def t p n using True by auto
  then show ?thesis by (simp only: t) (simp only: d)
qed

lemma search_year_filter:
  "search_year prev s =
     (case filter (\<lambda>i. match_year (prev_char prev s i) (drop i s) \<noteq> None) [0..<length s] of
        [] \<Rightarrow> None
      | i # _ \<Rightarrow> match_year (prev_char prev s i) (drop i s))"
proof (induction s arbitrary: prev)
  case Nil
  show ?case by simp
next
  case (Cons c cs)
  have upt: "[0..<length (c # cs)] = 0 # map Suc [0..<length cs]"
    by (simp add: upt_conv_Cons map_Suc_upt del: upt_Suc)
  have sh: "match_year (prev_char prev (c # cs) (Suc i)) (drop (Suc i) (c # cs))
            = match_year (prev_char (Some c) cs i) (drop i cs)" for i
    by (cases i) (simp_all add: prev_char_def)
  have psh: "prev_char prev (c # cs) (Suc i) = prev_char (Some c) cs i" for i
    by (cases i) (simp_all add: prev_char_def)
  have z: "match_year (prev_char prev (c # cs) 0) (drop 0 (c # cs)) = match_year prev (c # cs)"
    by (simp add: prev_char_def)
  show ?case
  proof (cases "match_year prev (c # cs)")
    case (Some m)
    have p0: "prev_char prev (c # cs) 0 = prev" by (simp add: prev_char_def)
    show ?thesis unfolding upt using Some by (simp add: p0)
  next
    case None
    have fm: "filter (\<lambda>i. match_year (prev_char prev (c # cs) i) (drop i (c # cs)) \<noteq> None)
            (0 # map Suc [0..<length cs])
          = map Suc (filter (\<lambda>i. match_year (prev_char (Some c) cs i) (drop i cs) \<noteq> None)
              [0..<length cs])"
      using None by (simp only: filter.simps z filter_map comp_def sh) simp
    have s1: "search_year prev (c # cs) = search_year (Some c) cs" using None by simp
    show ?thesis
      unfolding upt fm s1 Cons.IH[of "Some c"]
      by (cases "filter (\<lambda>i. match_year (prev_char (Some c) cs i) (drop i cs) \<noteq> None)
              [0..<length cs]") (simp_all add: psh)
  qed
qed

lemma search_year_first_year:
  "map_option int_of_digits (search_year None s) = first_year s"
proof -
  have f: "filter (\<lambda>i. match_year (prev_char None s i) (drop i s) \<noteq> None) [0..<length s]
        = filter (year_at s) [0..<length s]"
    by (simp add: match_year_year_at)
  have sf: "search_year None s =
     (case filter (year_at s) [0..<length s] of
        [] \<Rightarrow> None
      | i # _ \<Rightarrow> match_year (prev_char None s i) (drop i s))"
    using search_year_filter[of None s] unfolding f .
  show ?thesis
  proof (cases "filter (year_at s) [0..<length s]")
    case Nil
    then show ?thesis by (simp add: sf first_year_def)
  next
    case (Cons i js)
    then have "i \<in> set (filter (year_at s) [0..<length s])" by simp
    then have "year_at s i" by simp
    then show ?thesis
      using Cons by (simp add: sf first_year_def match_year_year_at)
  qed
qed

lemma extract_release_year_first_year:
  "fst (extract_release_year td)
     = first_year (first_segment (clean_text (get_text '' '' True (remove_sup_tags td))))"
proof -
  let ?t = "clean_text (get_text '' '' True (remove_sup_tags td))"
  obtain ps where "re_split (\<lambda>c. c = CHR 0x0A \<or> c = CHR '';'') ?t
       = takeWhile (\<lambda>c. \<not> (c = CHR 0x0A \<or> c = CHR '';'')) ?t # ps"
    using re_split_hd by blast
  then have "fst (extract_release_year td) = map_option int_of_digits (search_year None (first_segment ?t))"
    by (simp add: extract_release_year_def Let_def first_segment_def split: option.splits)
  then show ?thesis by (simp only: search_year_first_year)
qed

lemma extract_release_year_1975:
  "fst (extract_release_year (Tag 0 ''td'' []
     [NavigableString (''June 20, 1975 (1975-06-20)'' @ [CHR 0x0A] @ ''November 1976'')]))
   = Some 1975"
  by code_simp

text \<open>
  Claim C4, as stated: the result is the first four-digit year between 1800 and 2099 found
  in the first segment, \<open>None\<close> when that segment holds none.  It fails when the digits touch
  a letter, a digit or an underscore: the segment \<open>Summer2010\<close> holds the year 2010 and the
  result is \<open>None\<close>.
\<close>

theorem extract_release_year_glued_year_counterexample:
  "first_plain_year (first_segment (normal_form
       (get_text '' '' True (without_sup (Tag 0 ''td'' [] [NavigableString ''Summer2010''])))))
     = Some 2010
   \<and> fst (extract_release_year (Tag 0 ''td'' [] [NavigableString ''Summer2010''])) = None"
proof -
  have "first_plain_year (first_segment (clean_text
       (get_text '' '' True (without_sup (Tag 0 ''td'' [] [NavigableString ''Summer2010''])))))
     = Some 2010"
    by code_simp
  moreover have "fst (extract_release_year (Tag 0 ''td'' [] [NavigableString ''Summer2010''])) = None"
    by code_simp
  ultimately show ?thesis by (simp only: clean_text_normal_form)
qed

text \<open>
  Claim C4, amended.  \<open>extract_release_year\<close> takes the normal form of the text of the whole
  cell, keeps the first segment of its split on newline or semicolon, and returns as an
  integer the first four-digit year between 1800 and 2099 that stands there with no \<open>\w\<close>
  character (a letter, a digit or other numeric character, an underscore) directly before
  or behind it, or \<open>None\<close> when that segment has none; the cell text \<open>June 20, 1975 (1975-06-20)\<close>, newline, \<open>November 1976\<close> gives 1975.
\<close>

theorem extract_release_year_first_segment_year:
  "fst (extract_release_year td)
     = first_year (first_segment (normal_form (get_text '' '' True (without_sup td))))
   \<and> fst (extract_release_year (Tag 0 ''td'' []
         [NavigableString (''June 20, 1975 (1975-06-20)'' @ [CHR 0x0A] @ ''November 1976'')]))
       = Some 1975"
  using extract_release_year_first_year [of td] extract_release_year_1975
  by (simp only: clean_text_normal_form remove_sup_tags_without_sup)

theorem extract_release_year_first_segment_year_witness:
  "first_year (first_segment (normal_form (get_text '' '' True (without_sup
      (Tag 0 ''td'' [] [NavigableString ''x1999 (2001); 2002'', Tag 1 ''sup'' []
         [NavigableString ''1888'']]))))) = Some 2001
   \<and> fst (extract_release_year
      (Tag 0 ''td'' [] [NavigableString ''x1999 (2001); 2002'', Tag 1 ''sup'' []
         [NavigableString ''1888'']])) = Some 2001"
proof -
  let ?td = "Tag 0 ''td'' [] [NavigableString ''x1999 (2001); 2002'', Tag 1 ''sup'' []
         [NavigableString ''1888'']]"
  have "first_year (first_segment (clean_text (get_text '' '' True (without_sup ?td))))
           = Some 2001"
    by code_simp
  then have a: "first_year (first_segment (normal_form (get_text '' '' True (without_sup ?td))))
           = Some 2001"
    by (simp only: clean_text_normal_form)
  show ?thesis
    using extract_release_year_first_segment_year [of ?td] a by simp
qed

section \<open>Properties of the page extractors\<close>

subsection \<open>Rows with the same label\<close>












text \<open>
  A second \<open>Directed by\<close> row inside a \<open>sup\<close> element of the first row's cell is destroyed
  before the loop reaches it: the value of the first row stays.
\<close>

lemma film_info_row_in_removed_sup:
  "director (film_info_of_soup row_in_sup_page) = Some ''Jane''"
  by code_simp

subsection \<open>A listing page without its table\<close>

lemma extract_films_no_table:
  "extract_films (\<lambda>url. Inr (Tag 0 ''[document]'' [] [])) mentions_subject = Inl AttributeError"
  by (simp add: extract_films_def find_all_class_def Let_def)

lemma extract_films_no_title_header:
  "extract_films (\<lambda>url. Inr untitled_listing) (\<lambda>caption. False) = Inl TypeError"
  by code_simp

text \<open>
  Claim C2 says that a missing table, row or cell never raises and that the listing
  extractor returns an empty result when its table or a part of it is missing.  On a
  listing page without a \<open>wikitable\<close> table \<open>extract_films\<close> raises \<open>AttributeError\<close>
  (\<open>target_table\<close> is \<open>None\<close>), and on a table whose header row has no \<open>title\<close> cell it raises
  \<open>TypeError\<close> at the first row that has cells (\<open>title_index\<close> is \<open>None\<close>).
\<close>

theorem extract_films_raises_on_missing_parts:
  "extract_films (\<lambda>url. Inr (Tag 0 ''[document]'' [] [])) mentions_subject = Inl AttributeError
   \<and> extract_films (\<lambda>url. Inr untitled_listing) (\<lambda>caption. False) = Inl TypeError"
  using extract_films_no_table extract_films_no_title_header by blast

end
